theory Spec2Isabelle
  imports Complex_Main "HOL-Library.Word"
begin

section \<open>Values shared by all options\<close>

text \<open>
  A C++ \<^verbatim>\<open>float\<close> is modelled by the value it denotes: a finite number (every finite
  binary32 value is a rational), one of the two infinities, or a NaN. Comparisons follow
  IEEE 754: every ordered comparison with a NaN operand is false.
\<close>

datatype cfloat = Finite rat | PInf | NInf | NaN

fun fle :: "cfloat \<Rightarrow> cfloat \<Rightarrow> bool" where
  "fle NaN _ = False"
| "fle _ NaN = False"
| "fle NInf _ = True"
| "fle _ PInf = True"
| "fle PInf _ = False"
| "fle _ NInf = False"
| "fle (Finite a) (Finite b) = (a \<le> b)"

fun flt :: "cfloat \<Rightarrow> cfloat \<Rightarrow> bool" where
  "flt NaN _ = False"
| "flt _ NaN = False"
| "flt PInf _ = False"
| "flt _ NInf = False"
| "flt NInf _ = True"
| "flt _ PInf = True"
| "flt (Finite a) (Finite b) = (a < b)"

definition fge :: "cfloat \<Rightarrow> cfloat \<Rightarrow> bool" where
  "fge a b = fle b a"

text \<open>\<^verbatim>\<open>struct option_range { float min; float max; float step; float def; }\<close>\<close>

record option_range =
  range_min :: cfloat
  range_max :: cfloat
  step :: cfloat
  def :: cfloat

text \<open>
  What a call can do besides returning: throw a C++ exception, which a handler
  \<^verbatim>\<open>catch(...)\<close> catches, or leave the language (\<^verbatim>\<open>std::terminate\<close>, a null
  dereference), which no handler sees.
\<close>

datatype exception =
    wrong_api_call_sequence_exception string
  | system_error
  | transport_failure

datatype 'a outcome = Returns 'a | Throws exception | Aborts

section \<open>hexify\<close>

definition hex_digits :: string where
  "hex_digits = ''0123456789ABCDEF''"

text \<open>
  The \<^verbatim>\<open>do { res += digits[n % 16]; n >>= 4; } while (n);\<close> loop of \<^verbatim>\<open>hexify\<close>, on an
  \<^verbatim>\<open>unsigned char\<close>.
\<close>

function hexify_loop :: "8 word \<Rightarrow> string \<Rightarrow> string" where
  "hexify_loop n res =
     (let res' = res @ [hex_digits ! (unat n mod 16)];
          n' = drop_bit 4 n
      in if n' \<noteq> 0 then hexify_loop n' res' else res')"
  by pat_completeness auto
termination
proof (relation "measure (\<lambda>(n, res). unat n)")
  show "wf (measure (\<lambda>(n :: 8 word, res :: string). unat n))"
    by simp
next
  fix n :: "8 word" and res res' :: string and n' :: "8 word"
  assume n': "n' = drop_bit 4 n" and nz: "n' \<noteq> 0"
  have "unat n' = unat n div 16"
    by (simp add: n' unat_drop_bit_eq drop_bit_nat_def)
  moreover have "unat n' \<noteq> 0"
    using nz by (simp add: unat_eq_0)
  ultimately have "unat n' < unat n"
    by arith
  then show "((n', res'), (n, res)) \<in> measure (\<lambda>(n, res). unat n)"
    by simp
qed

declare hexify_loop.simps [simp del]

definition hexify :: "8 word \<Rightarrow> string" where
  "hexify n =
     (let res = rev (hexify_loop n [])
      in if length res = 1 then ''0'' @ res else res)"

section \<open>The firmware-log option\<close>

text \<open>
  The collaborators of \<^verbatim>\<open>hw-monitor.h\<close> as the worker uses them: a \<^verbatim>\<open>command\<close>
  carries its op-code and \<^verbatim>\<open>param1\<close>; \<^verbatim>\<open>hw_monitor::send\<close> returns the bytes of the
  answer or throws; locking the \<^verbatim>\<open>weak_ptr\<close> gives the monitor, or nothing once its
  owner has released it.
\<close>

record command =
  cmd :: "8 word"
  param1 :: int

type_synonym hw_monitor = "command \<Rightarrow> exception + 8 word list"

text \<open>
  A \<^verbatim>\<open>std::thread\<close> object is joinable from its creation until it has been joined;
  \<^verbatim>\<open>join\<close> on a thread that is not joinable throws \<^verbatim>\<open>std::system_error\<close>, and
  destroying a joinable one calls \<^verbatim>\<open>std::terminate\<close>. The \<^verbatim>\<open>unique_ptr\<close> holding it is
  \<open>None\<close> while null.
\<close>

datatype thread = Joinable | Joined

text \<open>
  The members of the class. \<^verbatim>\<open>_hw\<close> is read by the worker alone, and what locking it
  gives changes with the life of its owner: it is part of what the worker observes, below.
\<close>

record fw_logger_option =
  keep_fw_logger_alive :: bool
  fw_log_op_code :: "8 word"
  grab_rate_in_ms :: "32 word"
  desciption :: string
  fw_logger_thread :: "thread option"

definition make_fw_logger_option :: "8 word \<Rightarrow> 32 word \<Rightarrow> string \<Rightarrow> fw_logger_option" where
  "make_fw_logger_option op_code rate description =
     \<lparr>keep_fw_logger_alive = False,
      fw_log_op_code = op_code,
      grab_rate_in_ms = rate,
      desciption = description,
      fw_logger_thread = None\<rparr>"

text \<open>
  What \<^verbatim>\<open>new std::thread(...)\<close> does is the environment's: the thread starts, or the
  constructor throws \<^verbatim>\<open>std::system_error\<close> because no thread could be started.
\<close>

datatype spawn = Thread_created | Thread_creation_fails

text \<open>
  The flag is set before the thread is created, so a creation that throws leaves the
  flag set and \<^verbatim>\<open>_fw_logger_thread\<close> as it was. Assigning the new thread to
  \<^verbatim>\<open>_fw_logger_thread\<close> destroys the thread object held before.
\<close>

definition start_fw_logger ::
  "spawn \<Rightarrow> fw_logger_option \<Rightarrow> unit outcome \<times> fw_logger_option"
where
  "start_fw_logger sp s =
     (if keep_fw_logger_alive s
      then (Throws (wrong_api_call_sequence_exception ''FW logger already started''), s)
      else
        let s1 = s\<lparr>keep_fw_logger_alive := True\<rparr>
        in (case sp of
              Thread_creation_fails \<Rightarrow> (Throws system_error, s1)
            | Thread_created \<Rightarrow>
                (case fw_logger_thread s1 of
                   Some Joinable \<Rightarrow> (Aborts, s1)
                 | _ \<Rightarrow> (Returns (), s1\<lparr>fw_logger_thread := Some Joinable\<rparr>))))"

definition stop_fw_logger :: "fw_logger_option \<Rightarrow> unit outcome \<times> fw_logger_option" where
  "stop_fw_logger s =
     (if \<not> keep_fw_logger_alive s
      then (Throws (wrong_api_call_sequence_exception ''FW logger not started''), s)
      else
        let s1 = s\<lparr>keep_fw_logger_alive := False\<rparr>
        in (case fw_logger_thread s1 of
              None \<Rightarrow> (Aborts, s1)
            | Some Joined \<Rightarrow> (Throws system_error, s1)
            | Some Joinable \<Rightarrow> (Returns (), s1\<lparr>fw_logger_thread := Some Joined\<rparr>)))"

definition fw_logger_set ::
  "spawn \<Rightarrow> cfloat \<Rightarrow> fw_logger_option \<Rightarrow> unit outcome \<times> fw_logger_option"
where
  "fw_logger_set sp v s =
     (if fge v (Finite 1) then start_fw_logger sp s else stop_fw_logger s)"

definition fw_logger_query :: "fw_logger_option \<Rightarrow> cfloat" where
  "fw_logger_query s = Finite (of_int (if keep_fw_logger_alive s then 1 else 0))"

definition fw_logger_get_range :: "fw_logger_option \<Rightarrow> option_range" where
  "fw_logger_get_range s =
     \<lparr>range_min = Finite 0, range_max = Finite 1, step = Finite 1, def = Finite 0\<rparr>"

text \<open>The outcome is a \<^verbatim>\<open>wrong_api_call_sequence_exception\<close>.\<close>

fun sequencing_violation :: "'a outcome \<Rightarrow> bool" where
  "sequencing_violation (Throws (wrong_api_call_sequence_exception m)) = True"
| "sequencing_violation _ = False"

text \<open>A handler \<^verbatim>\<open>catch(...) { }\<close> around a call.\<close>

definition catch_all :: "unit outcome \<times> 's \<Rightarrow> unit outcome \<times> 's" where
  "catch_all r = (case fst r of Throws e \<Rightarrow> (Returns (), snd r) | _ \<Rightarrow> r)"

text \<open>
  The destructor: its body, then the destruction of the member \<^verbatim>\<open>_fw_logger_thread\<close>.
\<close>

definition destroy_fw_logger_option :: "fw_logger_option \<Rightarrow> unit outcome \<times> fw_logger_option" where
  "destroy_fw_logger_option s =
     (let r = catch_all (if keep_fw_logger_alive s then stop_fw_logger s else (Returns (), s))
      in (case fst r of
            Returns u \<Rightarrow>
              (if fw_logger_thread (snd r) = Some Joinable then (Aborts, snd r) else r)
          | _ \<Rightarrow> r))"

text \<open>
  The calls a client makes on the option between construction and destruction, a
  \<^verbatim>\<open>set\<close> with what the creation of a thread would do in it.
\<close>

datatype fw_call = Call_set spawn cfloat | Call_query

fun fw_call_state :: "fw_logger_option \<Rightarrow> fw_call \<Rightarrow> fw_logger_option" where
  "fw_call_state s (Call_set sp v) = snd (fw_logger_set sp v s)"
| "fw_call_state s Call_query = s"

fun start_call :: "fw_call \<Rightarrow> bool" where
  "start_call (Call_set sp v) = fge v (Finite 1)"
| "start_call Call_query = False"

fun stop_call :: "fw_call \<Rightarrow> bool" where
  "stop_call (Call_set sp v) = (\<not> fge v (Finite 1))"
| "stop_call Call_query = False"

text \<open>The option holds a thread that has not been joined only while the flag is set.\<close>

definition fw_inv :: "fw_logger_option \<Rightarrow> bool" where
  "fw_inv s = (fw_logger_thread s = Some Joinable \<longrightarrow> keep_fw_logger_alive s)"

subsection \<open>The worker\<close>

definition fw_log_command :: "fw_logger_option \<Rightarrow> command" where
  "fw_log_command s = \<lparr>cmd = fw_log_op_code s, param1 = 500\<rparr>"

text \<open>
  The \<^verbatim>\<open>try\<close> block of one iteration: the line handed to \<^verbatim>\<open>LOG_INFO\<close>, if any, or
  the exception that leaves the block.
\<close>

definition poll_once :: "command \<Rightarrow> hw_monitor option \<Rightarrow> exception + string option" where
  "poll_once c strong =
     (case strong of
        None \<Rightarrow> Inr None
      | Some monitor \<Rightarrow>
          (case monitor c of
             Inl e \<Rightarrow> Inl e
           | Inr data \<Rightarrow>
               let sstr = foldl (\<lambda>acc b. acc @ hexify b @ '' '') ''FW_Log_Data:'' data
               in Inr (if data \<noteq> [] then Some sstr else None)))"

text \<open>
  The worker's loop, against what it observes: each element of the trace is one test of
  \<^verbatim>\<open>_keep_fw_logger_alive\<close> (written by the controlling thread) and, when the test
  passes, the result of locking \<^verbatim>\<open>_hw\<close> after the sleep. The loop is still running when
  the trace ends before the flag has been seen cleared.
\<close>

datatype worker_status = Exited | Still_Running

fun fw_logger_worker ::
  "command \<Rightarrow> (bool \<times> hw_monitor option) list \<Rightarrow> string list \<Rightarrow> worker_status \<times> string list"
where
  "fw_logger_worker c [] out = (Still_Running, out)"
| "fw_logger_worker c ((alive, strong) # rest) out =
     (if alive
      then (case poll_once c strong of
              Inl e \<Rightarrow> fw_logger_worker c rest out
            | Inr None \<Rightarrow> fw_logger_worker c rest out
            | Inr (Some line) \<Rightarrow> fw_logger_worker c rest (out @ [line]))
      else (Exited, out))"

section \<open>The struct-field option\<close>

text \<open>
  The \<^verbatim>\<open>struct_interface\<close> behind the option is shared with its owner and is not part
  of these sources: it is a parameter, a state \<open>'si\<close> with the two calls the option makes
  on it. Either call can return, throw or fail, and changes the state as it likes.
\<close>

record ('f, 'si) struct_interface =
  si_set :: "'f \<Rightarrow> cfloat \<Rightarrow> 'si \<Rightarrow> unit outcome \<times> 'si"
  si_get :: "'f \<Rightarrow> 'si \<Rightarrow> cfloat outcome \<times> 'si"

text \<open>The members \<^verbatim>\<open>_range\<close> and \<^verbatim>\<open>_field\<close>.\<close>

record 'f struct_feild_option =
  sf_range :: option_range
  sf_field :: 'f

definition make_field_option :: "'f \<Rightarrow> option_range \<Rightarrow> 'f struct_feild_option" where
  "make_field_option field rng = \<lparr>sf_range = rng, sf_field = field\<rparr>"

text \<open>
  \<^verbatim>\<open>set\<close> is not a \<^verbatim>\<open>const\<close> member: it returns the option next to the state of the
  interface.
\<close>

definition struct_feild_set ::
  "('f, 'si) struct_interface \<Rightarrow> cfloat \<Rightarrow> 'f struct_feild_option \<times> 'si
     \<Rightarrow> unit outcome \<times> 'f struct_feild_option \<times> 'si"
where
  "struct_feild_set iface v w =
     (let r = si_set iface (sf_field (fst w)) v (snd w)
      in (fst r, fst w, snd r))"

definition struct_feild_query ::
  "('f, 'si) struct_interface \<Rightarrow> 'f struct_feild_option \<times> 'si
     \<Rightarrow> cfloat outcome \<times> 'f struct_feild_option \<times> 'si"
where
  "struct_feild_query iface w =
     (let r = si_get iface (sf_field (fst w)) (snd w)
      in (fst r, fst w, snd r))"

definition struct_feild_get_range :: "'f struct_feild_option \<Rightarrow> option_range" where
  "struct_feild_get_range opt = sf_range opt"

datatype sf_call = Sf_set cfloat | Sf_query | Sf_get_range

datatype sf_result =
  Set_done "unit outcome" | Query_done "cfloat outcome" | Range_is option_range

fun sf_call_step ::
  "('f, 'si) struct_interface \<Rightarrow> 'f struct_feild_option \<times> 'si \<Rightarrow> sf_call
     \<Rightarrow> sf_result \<times> 'f struct_feild_option \<times> 'si"
where
  "sf_call_step iface w (Sf_set v) =
     (let r = struct_feild_set iface v w in (Set_done (fst r), snd r))"
| "sf_call_step iface w Sf_query =
     (let r = struct_feild_query iface w in (Query_done (fst r), snd r))"
| "sf_call_step iface w Sf_get_range =
     (Range_is (struct_feild_get_range (fst w)), w)"

text \<open>A client's calls in order, with what each returned.\<close>

fun sf_calls ::
  "('f, 'si) struct_interface \<Rightarrow> 'f struct_feild_option \<times> 'si \<Rightarrow> sf_call list
     \<Rightarrow> sf_result list \<times> 'f struct_feild_option \<times> 'si"
where
  "sf_calls iface w [] = ([], w)"
| "sf_calls iface w (c # cs) =
     (let r = sf_call_step iface w c;
          rs = sf_calls iface (snd r) cs
      in (fst r # fst rs, snd rs))"

fun is_range_result :: "sf_result \<Rightarrow> bool" where
  "is_range_result (Range_is r) = True"
| "is_range_result _ = False"

text \<open>\<^verbatim>\<open>min <= def && def <= max\<close> on a range.\<close>

definition range_consistent :: "option_range \<Rightarrow> bool" where
  "range_consistent r = (fle (range_min r) (def r) \<and> fle (def r) (range_max r))"

section \<open>The extension-unit option\<close>

text \<open>
  The template parameter \<^verbatim>\<open>T\<close> ranges over the fixed-width integer types; a value of
  type \<^verbatim>\<open>T\<close> is the integer it denotes.
\<close>

datatype scalar = U8 | I8 | U16 | I16 | U32 | I32 | U64 | I64

fun sizeof :: "scalar \<Rightarrow> nat" where
  "sizeof U8 = 1" | "sizeof I8 = 1"
| "sizeof U16 = 2" | "sizeof I16 = 2"
| "sizeof U32 = 4" | "sizeof I32 = 4"
| "sizeof U64 = 8" | "sizeof I64 = 8"

fun is_signed :: "scalar \<Rightarrow> bool" where
  "is_signed U8 = False" | "is_signed I8 = True"
| "is_signed U16 = False" | "is_signed I16 = True"
| "is_signed U32 = False" | "is_signed I32 = True"
| "is_signed U64 = False" | "is_signed I64 = True"

definition scalar_min :: "scalar \<Rightarrow> int" where
  "scalar_min T = (if is_signed T then - (2 ^ (8 * sizeof T - 1)) else 0)"

definition scalar_max :: "scalar \<Rightarrow> int" where
  "scalar_max T = (if is_signed T then 2 ^ (8 * sizeof T - 1) - 1 else 2 ^ (8 * sizeof T) - 1)"

text \<open>The value of \<^verbatim>\<open>T\<close> held by the low \<^verbatim>\<open>sizeof(T)\<close> bytes of an integer.\<close>

definition to_scalar :: "scalar \<Rightarrow> int \<Rightarrow> int" where
  "to_scalar T n =
     (let u = n mod 2 ^ (8 * sizeof T)
      in if is_signed T \<and> 2 ^ (8 * sizeof T - 1) \<le> u then u - 2 ^ (8 * sizeof T) else u)"

definition trunc_toward_zero :: "rat \<Rightarrow> int" where
  "trunc_toward_zero r = (if 0 \<le> r then \<lfloor>r\<rfloor> else \<lceil>r\<rceil>)"

text \<open>
  \<^verbatim>\<open>static_cast<T>(value)\<close> discards the fractional part. When the truncated value is
  not a value of \<^verbatim>\<open>T\<close>, and on an infinity or a NaN, the language leaves the result
  open and the compiled conversion still returns a value of \<^verbatim>\<open>T\<close>: which one is the
  platform's choice, the parameter \<open>cast\<close>, read through the bytes of \<^verbatim>\<open>T\<close>.
\<close>

definition float_to_scalar :: "(scalar \<Rightarrow> cfloat \<Rightarrow> int) \<Rightarrow> scalar \<Rightarrow> cfloat \<Rightarrow> int" where
  "float_to_scalar cast T v =
     (case v of
        Finite r \<Rightarrow>
          (let t = trunc_toward_zero r
           in if scalar_min T \<le> t \<and> t \<le> scalar_max T then t
              else to_scalar T (cast T v))
      | _ \<Rightarrow> to_scalar T (cast T v))"

text \<open>
  The usual compiled conversion goes through a wider integer and keeps its low bytes: the
  truncated value wraps around, and an infinity or a NaN gives 0.
\<close>

definition wrapping_cast :: "scalar \<Rightarrow> cfloat \<Rightarrow> int" where
  "wrapping_cast T v = (case v of Finite r \<Rightarrow> trunc_toward_zero r | _ \<Rightarrow> 0)"

text \<open>
  \<^verbatim>\<open>static_cast<float>(t)\<close> on an integer of at most 64 bits: the integer itself when 24
  bits hold its magnitude, and else the nearest value with a 24-bit significand, a tie
  going to the even significand.
\<close>

fun bit_length :: "nat \<Rightarrow> nat" where
  "bit_length n = (if n = 0 then 0 else Suc (bit_length (n div 2)))"

declare bit_length.simps [simp del]

definition round_nat :: "nat \<Rightarrow> nat" where
  "round_nat a =
     (let e = bit_length a - 24;
          q = a div 2 ^ e;
          r = a mod 2 ^ e;
          q' = (if 2 ^ e < 2 * r \<or> (2 * r = 2 ^ e \<and> odd q) then q + 1 else q)
      in q' * 2 ^ e)"

definition round_binary32 :: "int \<Rightarrow> rat" where
  "round_binary32 n = of_int (sgn n * int (round_nat (nat \<bar>n\<bar>)))"

definition scalar_to_float :: "int \<Rightarrow> cfloat" where
  "scalar_to_float t = Finite (round_binary32 t)"

text \<open>
  The object representation that \<^verbatim>\<open>reinterpret_cast<uint8_t*>(&t)\<close> exposes:
  \<^verbatim>\<open>sizeof(T)\<close> bytes, the least significant first, negative values in two's complement.
\<close>

definition object_bytes :: "scalar \<Rightarrow> int \<Rightarrow> 8 word list" where
  "object_bytes T t = map (\<lambda>i. word_of_int (t div 256 ^ i)) [0..<sizeof T]"

definition bytes_object :: "scalar \<Rightarrow> 8 word list \<Rightarrow> int" where
  "bytes_object T bs =
     (let u = foldr (\<lambda>b acc. uint b + 256 * acc) bs 0
      in if is_signed T \<and> 2 ^ (8 * sizeof T - 1) \<le> u then u - 2 ^ (8 * sizeof T) else u)"

text \<open>
  The device behind the endpoint is not part of these sources: it is a parameter, a state
  \<open>'d\<close> with the three calls the option makes on it, each of which can return, throw a
  transport error or fail, and changes the state as it likes. \<^verbatim>\<open>get_xu\<close> returns the
  bytes it stored in the buffer.
\<close>

record control_range =
  cr_min :: int
  cr_max :: int
  cr_def :: int
  cr_step :: int

record ('xu, 'd) uvc_device =
  set_xu :: "'xu \<Rightarrow> int \<Rightarrow> 8 word list \<Rightarrow> 'd \<Rightarrow> unit outcome \<times> 'd"
  get_xu :: "'xu \<Rightarrow> int \<Rightarrow> nat \<Rightarrow> 'd \<Rightarrow> 8 word list outcome \<times> 'd"
  get_xu_range :: "'xu \<Rightarrow> int \<Rightarrow> nat \<Rightarrow> 'd \<Rightarrow> control_range outcome \<times> 'd"

text \<open>The members \<^verbatim>\<open>_xu\<close>, \<^verbatim>\<open>_id\<close> and \<^verbatim>\<open>_desciption\<close>.\<close>

record 'xu uvc_xu_option =
  xu :: 'xu
  xu_id :: int
  xu_desciption :: string

text \<open>
  Modelled from the spec: \<^verbatim>\<open>uvc_endpoint::invoke_powered\<close> (\<^verbatim>\<open>subdevice.h\<close> is not
  among the sources) executes the action on the device, powered for the duration of the
  call, and returns the action's result.
\<close>

definition invoke_powered :: "('d \<Rightarrow> 'r \<times> 'd) \<Rightarrow> 'd \<Rightarrow> 'r \<times> 'd" where
  "invoke_powered action d = action d"

definition uvc_xu_set ::
  "('xu, 'd) uvc_device \<Rightarrow> (scalar \<Rightarrow> cfloat \<Rightarrow> int) \<Rightarrow> scalar \<Rightarrow> 'xu uvc_xu_option
     \<Rightarrow> cfloat \<Rightarrow> 'd \<Rightarrow> unit outcome \<times> 'd"
where
  "uvc_xu_set dev cast T opt v =
     invoke_powered (\<lambda>d.
       let t = float_to_scalar cast T v
       in set_xu dev (xu opt) (xu_id opt) (object_bytes T t) d)"

text \<open>
  \<^verbatim>\<open>query\<close> reads \<^verbatim>\<open>t\<close> after \<^verbatim>\<open>get_xu\<close>; \<^verbatim>\<open>t\<close> is not initialised, so its value is
  indeterminate unless all of its bytes were stored.
\<close>

definition uvc_xu_query ::
  "('xu, 'd) uvc_device \<Rightarrow> scalar \<Rightarrow> 'xu uvc_xu_option \<Rightarrow> 'd \<Rightarrow> cfloat outcome \<times> 'd"
where
  "uvc_xu_query dev T opt =
     invoke_powered (\<lambda>d.
       let r = get_xu dev (xu opt) (xu_id opt) (sizeof T) d
       in (case fst r of
             Returns bs \<Rightarrow>
               (if length bs = sizeof T
                then (Returns (scalar_to_float (bytes_object T bs)), snd r)
                else (Aborts, snd r))
           | Throws e \<Rightarrow> (Throws e, snd r)
           | Aborts \<Rightarrow> (Aborts, snd r)))"

text \<open>
  The four assignments of \<^verbatim>\<open>get_range\<close>: each member of the device's range is
  widened to \<^verbatim>\<open>float\<close>.
\<close>

definition float_range :: "control_range \<Rightarrow> option_range" where
  "float_range uvc_range =
     \<lparr>range_min = scalar_to_float (cr_min uvc_range),
      range_max = scalar_to_float (cr_max uvc_range),
      step = scalar_to_float (cr_step uvc_range),
      def = scalar_to_float (cr_def uvc_range)\<rparr>"

definition uvc_xu_get_range ::
  "('xu, 'd) uvc_device \<Rightarrow> scalar \<Rightarrow> 'xu uvc_xu_option \<Rightarrow> 'd \<Rightarrow> option_range outcome \<times> 'd"
where
  "uvc_xu_get_range dev T opt d =
     (let r = invoke_powered (get_xu_range dev (xu opt) (xu_id opt) (sizeof T)) d
      in (case fst r of
            Returns uvc_range \<Rightarrow> (Returns (float_range uvc_range), snd r)
          | Throws e \<Rightarrow> (Throws e, snd r)
          | Aborts \<Rightarrow> (Aborts, snd r)))"

section \<open>The power-unit option\<close>

text \<open>The member \<^verbatim>\<open>_id\<close>, the identifier of the control.\<close>

record 'o uvc_pu_option =
  pu_id :: 'o

text \<open>
  Modelled from the spec: \<^verbatim>\<open>uvc_pu_option::get_range\<close> is declared in \<^verbatim>\<open>option.h\<close> and
  defined outside these sources. By the spec it marshals the range of the control through
  the endpoint's power-unit accessor, here the parameter \<open>get_pu_range\<close>, with the device
  powered for the call, and returns it as the range of the option.
\<close>

definition uvc_pu_get_range ::
  "('o \<Rightarrow> 'd \<Rightarrow> control_range outcome \<times> 'd) \<Rightarrow> 'o uvc_pu_option \<Rightarrow> 'd
     \<Rightarrow> option_range outcome \<times> 'd"
where
  "uvc_pu_get_range get_pu_range opt d =
     (let r = invoke_powered (get_pu_range (pu_id opt)) d
      in (case fst r of
            Returns uvc_range \<Rightarrow> (Returns (float_range uvc_range), snd r)
          | Throws e \<Rightarrow> (Throws e, snd r)
          | Aborts \<Rightarrow> (Aborts, snd r)))"

section \<open>Devices\<close>

text \<open>
  A register keeps what is written to it: after a write that returned, reading as many
  bytes returns the bytes written.
\<close>

definition reads_back :: "('xu, 'd) uvc_device \<Rightarrow> bool" where
  "reads_back dev =
     (\<forall>u c data d.
        fst (set_xu dev u c data d) = Returns () \<longrightarrow>
        fst (get_xu dev u c (length data) (snd (set_xu dev u c data d))) = Returns data)"

text \<open>A device whose registers are a table of byte strings, absent registers failing.\<close>

definition register_file :: "(nat, nat \<times> int \<rightharpoonup> 8 word list) uvc_device" where
  "register_file =
     \<lparr>set_xu = (\<lambda>u c data d.
        (case d (u, c) of
           None \<Rightarrow> (Throws transport_failure, d)
         | Some old \<Rightarrow>
             if length old = length data then (Returns (), d((u, c) \<mapsto> data))
             else (Throws transport_failure, d))),
      get_xu = (\<lambda>u c len d.
        (case d (u, c) of
           None \<Rightarrow> (Throws transport_failure, d)
         | Some bs \<Rightarrow>
             if length bs = len then (Returns bs, d) else (Throws transport_failure, d))),
      get_xu_range = (\<lambda>u c len d.
        (case d (u, c) of
           None \<Rightarrow> (Throws transport_failure, d)
         | Some bs \<Rightarrow>
             (Returns \<lparr>cr_min = 0, cr_max = 2 ^ (8 * len) - 1, cr_def = 0, cr_step = 1\<rparr>, d)))\<rparr>"

text \<open>The binary32 value with significand \<open>m\<close> and exponent \<open>e\<close>.\<close>

definition binary32 :: "int \<Rightarrow> int \<Rightarrow> rat" where
  "binary32 m e = of_int m * 2 powi e"

section \<open>Properties of hexify and of the logged line\<close>

lemma hexify_loop_small: "unat n < 16 \<Longrightarrow> hexify_loop n res = res @ [hex_digits ! unat n]"
proof -
  assume a: "unat n < 16"
  have "unat (drop_bit 4 n) = 0"
    using a by (simp add: unat_drop_bit_eq drop_bit_nat_def)
  then have "drop_bit 4 n = 0"
    by (simp add: unat_eq_0)
  then show ?thesis
    using a by (subst hexify_loop.simps) (simp add: Let_def)
qed

lemma hexify_loop_big:
  assumes "16 \<le> unat n"
  shows "hexify_loop n res = res @ [hex_digits ! (unat n mod 16), hex_digits ! (unat n div 16)]"
proof -
  have u: "unat (drop_bit 4 n) = unat n div 16"
    by (simp add: unat_drop_bit_eq drop_bit_nat_def)
  have "unat n < 256"
    using unsigned_less [of n, where 'a = nat] by simp
  then have small: "unat (drop_bit 4 n) < 16"
    using u by simp
  have "unat (drop_bit 4 n) \<noteq> 0"
    using assms u by simp
  then have nz: "drop_bit 4 n \<noteq> 0"
    by (simp add: unat_eq_0)
  show ?thesis
    by (subst hexify_loop.simps) (simp only: Let_def nz hexify_loop_small [OF small] u, simp)
qed

lemma hexify_eq: "hexify n = [hex_digits ! (unat n div 16), hex_digits ! (unat n mod 16)]"
proof (cases "unat n < 16")
  case True
  then show ?thesis
    by (simp add: hexify_def hexify_loop_small hex_digits_def)
next
  case False
  then show ?thesis
    by (simp add: hexify_def hexify_loop_big)
qed

lemma hex_digit_upper: "k < 16 \<Longrightarrow> hex_digits ! k \<in> set ''0123456789ABCDEF''"
  unfolding hex_digits_def by (rule nth_mem) simp

lemma payload_foldl:
  "foldl (\<lambda>acc b. acc @ hexify b @ '' '') acc0 data = acc0 @ concat (map (\<lambda>b. hexify b @ '' '') data)"
  by (induction data arbitrary: acc0) simp_all

text \<open>
  C3. \<^verbatim>\<open>hexify\<close> gives every byte as exactly two upper-case hexadecimal digits, the
  most significant nibble first: \<open>0x0A\<close> is \<open>0A\<close>, \<open>0xFF\<close> is \<open>FF\<close>, \<open>0x00\<close> is
  \<open>00\<close>. The worker writes a space after each byte, so the answer \<open>[0x01, 0x02]\<close> gives
  the payload \<open>01 02 \<close> behind the tag \<open>FW_Log_Data:\<close>, and the line is logged only
  when the answer is not empty.
\<close>

theorem hexify_two_upper_case_digits:
  "hexify n = [hex_digits ! (unat n div 16), hex_digits ! (unat n mod 16)]
   \<and> length (hexify n) = 2
   \<and> set (hexify n) \<subseteq> set ''0123456789ABCDEF''
   \<and> hexify 0x0A = ''0A'' \<and> hexify 0xFF = ''FF'' \<and> hexify 0x00 = ''00''
   \<and> poll_once c (Some (\<lambda>_. Inr [0x01, 0x02])) = Inr (Some ''FW_Log_Data:01 02 '')
   \<and> poll_once c (Some (\<lambda>_. Inr data)) =
       Inr (if data = [] then None
            else Some (''FW_Log_Data:'' @ concat (map (\<lambda>b. hexify b @ '' '') data)))
   \<and> fw_logger_worker c [(True, Some (\<lambda>_. Inr data))] out =
       (Still_Running,
        if data = [] then out
        else out @ [''FW_Log_Data:'' @ concat (map (\<lambda>b. hexify b @ '' '') data)])"
proof -
  have lt: "unat n < 256"
    using unsigned_less [of n, where 'a = nat] by simp
  then have hi: "unat n div 16 < 16"
    by simp
  have lo: "unat n mod 16 < 16"
    by simp
  have up: "set (hexify n) \<subseteq> set ''0123456789ABCDEF''"
    using hex_digit_upper [OF hi] hex_digit_upper [OF lo] by (simp add: hexify_eq)
  have p: "poll_once c (Some (\<lambda>_. Inr data)) =
       Inr (if data = [] then None
            else Some (''FW_Log_Data:'' @ concat (map (\<lambda>b. hexify b @ '' '') data)))" for data
    by (simp add: poll_once_def payload_foldl)
  have p12: "poll_once c (Some (\<lambda>_. Inr [0x01, 0x02])) = Inr (Some ''FW_Log_Data:01 02 '')"
    by (simp add: p hexify_eq hex_digits_def)
  have w: "fw_logger_worker c [(True, Some (\<lambda>_. Inr data))] out =
       (Still_Running,
        if data = [] then out
        else out @ [''FW_Log_Data:'' @ concat (map (\<lambda>b. hexify b @ '' '') data)])"
    by (simp add: p)
  have ex: "hexify 0x0A = ''0A'' \<and> hexify 0xFF = ''FF'' \<and> hexify 0x00 = ''00''"
    by (simp add: hexify_eq hex_digits_def)
  show ?thesis
    using up p p12 w ex by (simp add: hexify_eq)
qed

section \<open>The start and stop state machine\<close>

lemma start_seq: "sequencing_violation (fst (start_fw_logger sp s)) = keep_fw_logger_alive s"
  by (simp add: start_fw_logger_def Let_def split: option.split thread.split spawn.split)

lemma stop_seq: "sequencing_violation (fst (stop_fw_logger s)) = (\<not> keep_fw_logger_alive s)"
  by (simp add: stop_fw_logger_def Let_def split: option.split thread.split spawn.split)

lemma start_alive: "keep_fw_logger_alive (snd (start_fw_logger sp s))"
  by (simp add: start_fw_logger_def Let_def split: option.split thread.split spawn.split)

lemma stop_not_alive: "\<not> keep_fw_logger_alive (snd (stop_fw_logger s))"
  by (simp add: stop_fw_logger_def Let_def split: option.split thread.split spawn.split)

lemma start_when_alive:
  "keep_fw_logger_alive s \<Longrightarrow>
   start_fw_logger sp s = (Throws (wrong_api_call_sequence_exception ''FW logger already started''), s)"
  by (simp add: start_fw_logger_def)

lemma stop_when_stopped:
  "\<not> keep_fw_logger_alive s \<Longrightarrow>
   stop_fw_logger s = (Throws (wrong_api_call_sequence_exception ''FW logger not started''), s)"
  by (simp add: stop_fw_logger_def)

lemma flt_not_fge: "flt v (Finite 1) \<Longrightarrow> \<not> fge v (Finite 1)"
  by (cases v) (simp_all add: fge_def)


lemma alive_kept_without_stop:
  "keep_fw_logger_alive s \<Longrightarrow> list_all (\<lambda>c. \<not> stop_call c) cs \<Longrightarrow>
   keep_fw_logger_alive (foldl fw_call_state s cs)"
proof (induction cs arbitrary: s)
  case Nil
  then show ?case by simp
next
  case (Cons c cs)
  have "keep_fw_logger_alive (fw_call_state s c)"
  proof (cases c)
    case (Call_set sp v)
    with Cons.prems show ?thesis
      by (simp add: fw_logger_set_def start_alive)
  next
    case Call_query
    with Cons.prems show ?thesis by simp
  qed
  with Cons show ?case by simp
qed

lemma stopped_kept_without_start:
  "\<not> keep_fw_logger_alive s \<Longrightarrow> list_all (\<lambda>c. \<not> start_call c) cs \<Longrightarrow>
   \<not> keep_fw_logger_alive (foldl fw_call_state s cs)"
proof (induction cs arbitrary: s)
  case Nil
  then show ?case by simp
next
  case (Cons c cs)
  have "\<not> keep_fw_logger_alive (fw_call_state s c)"
  proof (cases c)
    case (Call_set sp v)
    with Cons.prems show ?thesis
      by (simp add: fw_logger_set_def stop_not_alive)
  next
    case Call_query
    with Cons.prems show ?thesis by simp
  qed
  with Cons show ?case by simp
qed

text \<open>
  C1. A \<^verbatim>\<open>set\<close> with a value of at least 1 is a start, and throws the sequencing
  exception exactly when the poller is running; a \<^verbatim>\<open>set\<close> with a value below 1 is a
  stop, and throws it exactly when the poller is stopped. A second start fails whenever no
  stop was requested since the first, and a second stop fails whenever no start was
  requested since the first, whatever other calls came in between.
\<close>

theorem fw_logger_set_sequencing:
  "(fge v (Finite 1) \<longrightarrow>
      fw_logger_set sp v s = start_fw_logger sp s \<and>
      sequencing_violation (fst (fw_logger_set sp v s)) = keep_fw_logger_alive s)
   \<and> (flt v (Finite 1) \<longrightarrow>
      fw_logger_set sp v s = stop_fw_logger s \<and>
      sequencing_violation (fst (fw_logger_set sp v s)) = (\<not> keep_fw_logger_alive s))
   \<and> (fge v (Finite 1) \<and> fge w (Finite 1) \<and> list_all (\<lambda>c. \<not> stop_call c) cs \<longrightarrow>
      fst (fw_logger_set sp' w (foldl fw_call_state (snd (fw_logger_set sp v s)) cs)) =
        Throws (wrong_api_call_sequence_exception ''FW logger already started''))
   \<and> (flt v (Finite 1) \<and> flt w (Finite 1) \<and> list_all (\<lambda>c. \<not> start_call c) cs \<longrightarrow>
      fst (fw_logger_set sp' w (foldl fw_call_state (snd (fw_logger_set sp v s)) cs)) =
        Throws (wrong_api_call_sequence_exception ''FW logger not started''))"
proof (intro conjI impI)
  assume v: "fge v (Finite 1)"
  then show a: "fw_logger_set sp v s = start_fw_logger sp s"
    by (simp add: fw_logger_set_def)
  show "sequencing_violation (fst (fw_logger_set sp v s)) = keep_fw_logger_alive s"
    by (simp add: a start_seq)
next
  assume v: "flt v (Finite 1)"
  then show a: "fw_logger_set sp v s = stop_fw_logger s"
    by (simp add: fw_logger_set_def flt_not_fge)
  show "sequencing_violation (fst (fw_logger_set sp v s)) = (\<not> keep_fw_logger_alive s)"
    by (simp add: a stop_seq)
next
  assume h: "fge v (Finite 1) \<and> fge w (Finite 1) \<and> list_all (\<lambda>c. \<not> stop_call c) cs"
  then have "keep_fw_logger_alive (snd (fw_logger_set sp v s))"
    by (simp add: fw_logger_set_def start_alive)
  then have "keep_fw_logger_alive (foldl fw_call_state (snd (fw_logger_set sp v s)) cs)"
    using h by (simp add: alive_kept_without_stop)
  then show "fst (fw_logger_set sp' w (foldl fw_call_state (snd (fw_logger_set sp v s)) cs)) =
        Throws (wrong_api_call_sequence_exception ''FW logger already started'')"
    using h by (simp add: fw_logger_set_def start_when_alive)
next
  assume h: "flt v (Finite 1) \<and> flt w (Finite 1) \<and> list_all (\<lambda>c. \<not> start_call c) cs"
  then have "\<not> keep_fw_logger_alive (snd (fw_logger_set sp v s))"
    by (simp add: fw_logger_set_def flt_not_fge stop_not_alive)
  then have "\<not> keep_fw_logger_alive (foldl fw_call_state (snd (fw_logger_set sp v s)) cs)"
    using h by (simp add: stopped_kept_without_start)
  then show "fst (fw_logger_set sp' w (foldl fw_call_state (snd (fw_logger_set sp v s)) cs)) =
        Throws (wrong_api_call_sequence_exception ''FW logger not started'')"
    using h by (simp add: fw_logger_set_def flt_not_fge stop_when_stopped)
qed


theorem fw_logger_set_sequencing_witness:
  "fge (Finite 1) (Finite 1) \<and> fge (Finite 2) (Finite 1) \<and> flt (Finite 0) (Finite 1)
   \<and> list_all (\<lambda>c. \<not> stop_call c) [Call_query, Call_set Thread_created (Finite 3)]
   \<and> list_all (\<lambda>c. \<not> start_call c) [Call_query]
   \<and> sequencing_violation (fst (fw_logger_set Thread_created (Finite 1) (make_fw_logger_option 0x0F 100 ''fw log'')))
       = keep_fw_logger_alive (make_fw_logger_option 0x0F 100 ''fw log'')
   \<and> sequencing_violation (fst (fw_logger_set Thread_created (Finite 0) (make_fw_logger_option 0x0F 100 ''fw log'')))
       = (\<not> keep_fw_logger_alive (make_fw_logger_option 0x0F 100 ''fw log''))
   \<and> fst (fw_logger_set Thread_created (Finite 2)
        (foldl fw_call_state (snd (fw_logger_set Thread_created (Finite 1) (make_fw_logger_option 0x0F 100 ''fw log'')))
          [Call_query, Call_set Thread_created (Finite 3)]))
       = Throws (wrong_api_call_sequence_exception ''FW logger already started'')
   \<and> fst (fw_logger_set Thread_created (Finite 0)
        (foldl fw_call_state (snd (fw_logger_set Thread_created (Finite 0) (make_fw_logger_option 0x0F 100 ''fw log'')))
          [Call_query]))
       = Throws (wrong_api_call_sequence_exception ''FW logger not started'')"
proof -
  have h: "fge (Finite 1) (Finite 1)" "fge (Finite 2) (Finite 1)" "flt (Finite 0) (Finite 1)"
    "list_all (\<lambda>c. \<not> stop_call c) [Call_query, Call_set Thread_created (Finite 3)]"
    "list_all (\<lambda>c. \<not> start_call c) [Call_query]"
    by (simp_all add: fge_def)
  note a = fw_logger_set_sequencing [where v = "Finite 1" and sp = Thread_created
      and s = "make_fw_logger_option 0x0F 100 ''fw log''" and w = "Finite 2"
      and sp' = Thread_created and cs = "[Call_query, Call_set Thread_created (Finite 3)]"]
  note b = fw_logger_set_sequencing [where v = "Finite 0" and sp = Thread_created
      and s = "make_fw_logger_option 0x0F 100 ''fw log''" and w = "Finite 0"
      and sp' = Thread_created and cs = "[Call_query]"]
  show ?thesis
    using h a b by blast
qed

text \<open>
  C7. A \<^verbatim>\<open>set\<close> that throws the sequencing exception leaves the option as it was: the
  flag, the worker's thread and every other member are unchanged, and \<^verbatim>\<open>query\<close>
  returns what it returned before the call.
\<close>

theorem failed_set_keeps_state:
  assumes "sequencing_violation (fst (fw_logger_set sp v s))"
  shows "snd (fw_logger_set sp v s) = s
    \<and> keep_fw_logger_alive (snd (fw_logger_set sp v s)) = keep_fw_logger_alive s
    \<and> fw_logger_thread (snd (fw_logger_set sp v s)) = fw_logger_thread s
    \<and> fw_logger_query (snd (fw_logger_set sp v s)) = fw_logger_query s"
proof -
  have "snd (fw_logger_set sp v s) = s"
  proof (cases "fge v (Finite 1)")
    case True
    with assms have "keep_fw_logger_alive s"
      by (simp add: fw_logger_set_def start_seq)
    with True show ?thesis
      by (simp add: fw_logger_set_def start_when_alive)
  next
    case False
    with assms have "\<not> keep_fw_logger_alive s"
      by (simp add: fw_logger_set_def stop_seq)
    with False show ?thesis
      by (simp add: fw_logger_set_def stop_when_stopped)
  qed
  then show ?thesis by simp
qed

theorem failed_set_keeps_state_witness:
  "sequencing_violation (fst (fw_logger_set Thread_created (Finite 0) (make_fw_logger_option 0x0F 100 ''fw log'')))
   \<and> snd (fw_logger_set Thread_created (Finite 0) (make_fw_logger_option 0x0F 100 ''fw log''))
       = make_fw_logger_option 0x0F 100 ''fw log''
   \<and> fw_logger_query (snd (fw_logger_set Thread_created (Finite 0) (make_fw_logger_option 0x0F 100 ''fw log'')))
       = fw_logger_query (make_fw_logger_option 0x0F 100 ''fw log'')"
proof -
  have h: "sequencing_violation
      (fst (fw_logger_set Thread_created (Finite 0) (make_fw_logger_option 0x0F 100 ''fw log'')))"
    by (simp add: fw_logger_set_def fge_def stop_fw_logger_def make_fw_logger_option_def)
  show ?thesis
    using h failed_set_keeps_state [OF h] by simp
qed

text \<open>
  C8. \<^verbatim>\<open>query\<close> returns 1 while the poller is running and 0 while it is stopped: 1
  right after a start that returned, 0 right after a stop that returned, and 0 on a newly
  constructed option.
\<close>

theorem fw_logger_query_reports_running:
  "fw_logger_query s = (if keep_fw_logger_alive s then Finite 1 else Finite 0)
   \<and> (fge v (Finite 1) \<and> fst (fw_logger_set sp v s) = Returns () \<longrightarrow>
        fw_logger_query (snd (fw_logger_set sp v s)) = Finite 1)
   \<and> (flt v (Finite 1) \<and> fst (fw_logger_set sp v s) = Returns () \<longrightarrow>
        fw_logger_query (snd (fw_logger_set sp v s)) = Finite 0)
   \<and> fw_logger_query (make_fw_logger_option op_code rate description) = Finite 0"
  by (simp add: fw_logger_query_def fw_logger_set_def flt_not_fge start_alive stop_not_alive
      make_fw_logger_option_def)

theorem fw_logger_query_reports_running_witness:
  "fge (Finite 1) (Finite 1)
   \<and> fst (fw_logger_set Thread_created (Finite 1) (make_fw_logger_option 0x0F 100 ''fw log'')) = Returns ()
   \<and> fw_logger_query (snd (fw_logger_set Thread_created (Finite 1) (make_fw_logger_option 0x0F 100 ''fw log'')))
       = Finite 1
   \<and> flt (Finite 0) (Finite 1)
   \<and> fst (fw_logger_set Thread_created (Finite 0)
        (snd (fw_logger_set Thread_created (Finite 1) (make_fw_logger_option 0x0F 100 ''fw log'')))) = Returns ()
   \<and> fw_logger_query (snd (fw_logger_set Thread_created (Finite 0)
        (snd (fw_logger_set Thread_created (Finite 1) (make_fw_logger_option 0x0F 100 ''fw log''))))) = Finite 0"
proof -
  have h: "fge (Finite 1) (Finite 1)"
    "fst (fw_logger_set Thread_created (Finite 1) (make_fw_logger_option 0x0F 100 ''fw log'')) = Returns ()"
    "flt (Finite 0) (Finite 1)"
    "fst (fw_logger_set Thread_created (Finite 0)
        (snd (fw_logger_set Thread_created (Finite 1) (make_fw_logger_option 0x0F 100 ''fw log'')))) = Returns ()"
    by (simp_all add: fge_def fw_logger_set_def start_fw_logger_def stop_fw_logger_def
        make_fw_logger_option_def)
  note a = fw_logger_query_reports_running
      [where s = "make_fw_logger_option 0x0F 100 ''fw log''" and v = "Finite 1"
        and sp = Thread_created]
  note b = fw_logger_query_reports_running
      [where s = "snd (fw_logger_set Thread_created (Finite 1)
          (make_fw_logger_option 0x0F 100 ''fw log''))"
        and v = "Finite 0" and sp = Thread_created]
  show ?thesis
    using h a b by blast
qed

text \<open>
  C10. Every argument for which \<^verbatim>\<open>value >= 1\<close> is false takes the stop branch. A NaN
  is neither at least 1 nor below 1, so \<^verbatim>\<open>set(NaN)\<close> is a stop request: it stops a
  running poller, and throws the sequencing exception when the poller is stopped.
\<close>

theorem fw_logger_set_nan_is_stop:
  "(\<not> fge v (Finite 1) \<longrightarrow> fw_logger_set sp v s = stop_fw_logger s)
   \<and> \<not> fge NaN (Finite 1) \<and> \<not> flt NaN (Finite 1)
   \<and> fw_logger_set sp NaN s = stop_fw_logger s
   \<and> (keep_fw_logger_alive s \<longrightarrow> \<not> keep_fw_logger_alive (snd (fw_logger_set sp NaN s)))
   \<and> (keep_fw_logger_alive s \<and> fw_logger_thread s = Some Joinable \<longrightarrow>
        fw_logger_set sp NaN s =
          (Returns (), s\<lparr>keep_fw_logger_alive := False, fw_logger_thread := Some Joined\<rparr>))
   \<and> (\<not> keep_fw_logger_alive s \<longrightarrow>
        fw_logger_set sp NaN s =
          (Throws (wrong_api_call_sequence_exception ''FW logger not started''), s))"
  by (simp add: fw_logger_set_def fge_def stop_not_alive stop_when_stopped)
    (simp add: stop_fw_logger_def)

theorem fw_logger_set_nan_is_stop_witness:
  "\<not> fge NInf (Finite 1)
   \<and> fw_logger_set Thread_created NInf (make_fw_logger_option 0x0F 100 ''fw log'')
       = stop_fw_logger (make_fw_logger_option 0x0F 100 ''fw log'')
   \<and> \<not> keep_fw_logger_alive (make_fw_logger_option 0x0F 100 ''fw log'')
   \<and> fw_logger_set Thread_created NaN (make_fw_logger_option 0x0F 100 ''fw log'')
       = (Throws (wrong_api_call_sequence_exception ''FW logger not started''),
          make_fw_logger_option 0x0F 100 ''fw log'')
   \<and> keep_fw_logger_alive (snd (start_fw_logger Thread_created (make_fw_logger_option 0x0F 100 ''fw log'')))
   \<and> fw_logger_thread (snd (start_fw_logger Thread_created (make_fw_logger_option 0x0F 100 ''fw log'')))
       = Some Joinable
   \<and> fw_logger_set Thread_created NaN (snd (start_fw_logger Thread_created (make_fw_logger_option 0x0F 100 ''fw log'')))
       = (Returns (), (snd (start_fw_logger Thread_created (make_fw_logger_option 0x0F 100 ''fw log'')))
            \<lparr>keep_fw_logger_alive := False, fw_logger_thread := Some Joined\<rparr>)"
proof -
  have h: "\<not> fge NInf (Finite 1)"
    "\<not> keep_fw_logger_alive (make_fw_logger_option 0x0F 100 ''fw log'')"
    "keep_fw_logger_alive (snd (start_fw_logger Thread_created (make_fw_logger_option 0x0F 100 ''fw log'')))"
    "fw_logger_thread (snd (start_fw_logger Thread_created (make_fw_logger_option 0x0F 100 ''fw log'')))
       = Some Joinable"
    by (simp_all add: fge_def start_fw_logger_def make_fw_logger_option_def)
  note a = fw_logger_set_nan_is_stop [where v = NInf and sp = Thread_created
      and s = "make_fw_logger_option 0x0F 100 ''fw log''"]
  note b = fw_logger_set_nan_is_stop
      [where v = NaN and sp = Thread_created
        and s = "snd (start_fw_logger Thread_created (make_fw_logger_option 0x0F 100 ''fw log''))"]
  show ?thesis
    using h a b by blast
qed

section \<open>The destructor\<close>

lemma fw_inv_make: "fw_inv (make_fw_logger_option op_code rate description)"
  by (simp add: fw_inv_def make_fw_logger_option_def)

lemma fw_inv_start: "fw_inv s \<Longrightarrow> fw_inv (snd (start_fw_logger sp s)) \<and> fst (start_fw_logger sp s) \<noteq> Aborts"
  by (auto simp: fw_inv_def start_fw_logger_def Let_def split: option.split thread.split spawn.split)

lemma fw_inv_stop: "fw_inv s \<Longrightarrow> fw_inv (snd (stop_fw_logger s))"
  by (auto simp: fw_inv_def stop_fw_logger_def Let_def split: option.split thread.split)

lemma fw_inv_calls: "fw_inv s \<Longrightarrow> fw_inv (foldl fw_call_state s cs)"
proof (induction cs arbitrary: s)
  case Nil
  then show ?case by simp
next
  case (Cons c cs)
  have "fw_inv (fw_call_state s c)"
    using Cons.prems by (cases c) (simp_all add: fw_logger_set_def fw_inv_start fw_inv_stop)
  then show ?case
    using Cons.IH by simp
qed

text \<open>
  What the destructor does on an option reached from the constructor through calls of
  \<^verbatim>\<open>set\<close> and \<^verbatim>\<open>query\<close>: it returns, unless a start failed to create its thread
  when the option had none yet and nothing cleared the flag since. There the flag is set
  with \<^verbatim>\<open>_fw_logger_thread\<close> null, and the stop the destructor calls dereferences it.
\<close>

lemma destroy_after_calls:
  "fst (destroy_fw_logger_option
     (foldl fw_call_state (make_fw_logger_option op_code rate description) cs)) =
   (if keep_fw_logger_alive
         (foldl fw_call_state (make_fw_logger_option op_code rate description) cs) \<and>
       fw_logger_thread
         (foldl fw_call_state (make_fw_logger_option op_code rate description) cs) = None
    then Aborts else Returns ())"
proof -
  let ?s = "foldl fw_call_state (make_fw_logger_option op_code rate description) cs"
  have "fw_inv ?s"
    by (rule fw_inv_calls [OF fw_inv_make])
  then show ?thesis
    by (cases "fw_logger_thread ?s")
      (auto simp: fw_inv_def destroy_fw_logger_option_def catch_all_def stop_fw_logger_def
        Let_def split: thread.splits)
qed

text \<open>
  C6. The destructor never lets an exception out, also where the same stop requested
  through \<^verbatim>\<open>set\<close> throws. On a running option it performs the stop: the flag is
  cleared and the worker joined. On a stopped option it calls no stop and changes nothing.
\<close>

theorem destroy_never_throws:
  "fst (destroy_fw_logger_option s) \<noteq> Throws e
   \<and> (keep_fw_logger_alive s \<longrightarrow>
        snd (destroy_fw_logger_option s) = snd (stop_fw_logger s))
   \<and> (keep_fw_logger_alive s \<and> fw_logger_thread s = Some Joinable \<longrightarrow>
        destroy_fw_logger_option s =
          (Returns (), s\<lparr>keep_fw_logger_alive := False, fw_logger_thread := Some Joined\<rparr>))
   \<and> (keep_fw_logger_alive s \<and> fst (fw_logger_set sp (Finite 0) s) = Throws e \<longrightarrow>
        fst (destroy_fw_logger_option s) = Returns ())
   \<and> (\<not> keep_fw_logger_alive s \<longrightarrow>
        fst (fw_logger_set sp (Finite 0) s) =
          Throws (wrong_api_call_sequence_exception ''FW logger not started'') \<and>
        snd (destroy_fw_logger_option s) = s)"
proof (intro conjI impI)
  show "fst (destroy_fw_logger_option s) \<noteq> Throws e"
    by (simp add: destroy_fw_logger_option_def catch_all_def stop_fw_logger_def Let_def
        split: option.split thread.split outcome.split)
  show "snd (destroy_fw_logger_option s) = snd (stop_fw_logger s)" if "keep_fw_logger_alive s"
    using that
    by (simp add: destroy_fw_logger_option_def catch_all_def stop_fw_logger_def Let_def
        split: option.split thread.split outcome.split)
  show "destroy_fw_logger_option s =
          (Returns (), s\<lparr>keep_fw_logger_alive := False, fw_logger_thread := Some Joined\<rparr>)"
    if "keep_fw_logger_alive s \<and> fw_logger_thread s = Some Joinable"
    using that
    by (simp add: destroy_fw_logger_option_def catch_all_def stop_fw_logger_def Let_def)
  show "fst (destroy_fw_logger_option s) = Returns ()"
    if "keep_fw_logger_alive s \<and> fst (fw_logger_set sp (Finite 0) s) = Throws e"
    using that
    by (auto simp add: destroy_fw_logger_option_def catch_all_def fw_logger_set_def fge_def
        stop_fw_logger_def Let_def split: option.splits thread.splits)
  show "fst (fw_logger_set sp (Finite 0) s) =
          Throws (wrong_api_call_sequence_exception ''FW logger not started'')"
    if "\<not> keep_fw_logger_alive s"
    using that by (simp add: fw_logger_set_def fge_def stop_when_stopped)
  show "snd (destroy_fw_logger_option s) = s" if "\<not> keep_fw_logger_alive s"
    using that by (simp add: destroy_fw_logger_option_def catch_all_def Let_def)
qed

theorem destroy_never_throws_witness:
  "keep_fw_logger_alive (snd (start_fw_logger Thread_created (make_fw_logger_option 0x0F 100 ''fw log'')))
   \<and> fw_logger_thread (snd (start_fw_logger Thread_created (make_fw_logger_option 0x0F 100 ''fw log'')))
       = Some Joinable
   \<and> destroy_fw_logger_option (snd (start_fw_logger Thread_created (make_fw_logger_option 0x0F 100 ''fw log'')))
       = (Returns (), (snd (start_fw_logger Thread_created (make_fw_logger_option 0x0F 100 ''fw log'')))
            \<lparr>keep_fw_logger_alive := False, fw_logger_thread := Some Joined\<rparr>)
   \<and> keep_fw_logger_alive
        ((make_fw_logger_option 0x0F 100 ''fw log'')
          \<lparr>keep_fw_logger_alive := True, fw_logger_thread := Some Joined\<rparr>)
   \<and> fst (fw_logger_set Thread_created (Finite 0)
        ((make_fw_logger_option 0x0F 100 ''fw log'')
          \<lparr>keep_fw_logger_alive := True, fw_logger_thread := Some Joined\<rparr>))
       = Throws system_error
   \<and> fst (destroy_fw_logger_option
        ((make_fw_logger_option 0x0F 100 ''fw log'')
          \<lparr>keep_fw_logger_alive := True, fw_logger_thread := Some Joined\<rparr>))
       = Returns ()
   \<and> \<not> keep_fw_logger_alive (make_fw_logger_option 0x0F 100 ''fw log'')
   \<and> snd (destroy_fw_logger_option (make_fw_logger_option 0x0F 100 ''fw log''))
       = make_fw_logger_option 0x0F 100 ''fw log''"
proof -
  have h: "keep_fw_logger_alive (snd (start_fw_logger Thread_created (make_fw_logger_option 0x0F 100 ''fw log'')))"
    "fw_logger_thread (snd (start_fw_logger Thread_created (make_fw_logger_option 0x0F 100 ''fw log'')))
       = Some Joinable"
    "keep_fw_logger_alive
        ((make_fw_logger_option 0x0F 100 ''fw log'')
          \<lparr>keep_fw_logger_alive := True, fw_logger_thread := Some Joined\<rparr>)"
    "fst (fw_logger_set Thread_created (Finite 0)
        ((make_fw_logger_option 0x0F 100 ''fw log'')
          \<lparr>keep_fw_logger_alive := True, fw_logger_thread := Some Joined\<rparr>))
       = Throws system_error"
    "\<not> keep_fw_logger_alive (make_fw_logger_option 0x0F 100 ''fw log'')"
    by (simp_all add: fge_def fw_logger_set_def start_fw_logger_def stop_fw_logger_def
        make_fw_logger_option_def)
  note a = destroy_never_throws
      [where s = "snd (start_fw_logger Thread_created (make_fw_logger_option 0x0F 100 ''fw log''))"
        and sp = Thread_created]
  note b = destroy_never_throws
      [of "(make_fw_logger_option 0x0F 100 ''fw log'')
          \<lparr>keep_fw_logger_alive := True, fw_logger_thread := Some Joined\<rparr>" system_error
        Thread_created]
  note c = destroy_never_throws [where s = "make_fw_logger_option 0x0F 100 ''fw log''"
      and sp = Thread_created]
  show ?thesis
    using h a b c by blast
qed

section \<open>The worker's loop\<close>

lemma worker_skips_failed_poll:
  "strong = None \<or> poll_once c strong = Inl e \<Longrightarrow>
   fw_logger_worker c ((True, strong) # rest) out = fw_logger_worker c rest out"
  by (auto simp: poll_once_def)

lemma worker_running_while_alive:
  "list_all fst tr \<Longrightarrow> fst (fw_logger_worker c tr out) = Still_Running"
  by (induction tr arbitrary: out) (auto split: sum.split option.split)

lemma worker_exits_at_cleared_flag:
  "list_all fst pre \<Longrightarrow>
   fw_logger_worker c (pre @ (False, strong) # post) out =
     (Exited, snd (fw_logger_worker c pre out))"
  by (induction pre arbitrary: out) (auto split: sum.split option.split)

lemma worker_exited_iff:
  "(fst (fw_logger_worker c tr out) = Exited) = (\<not> list_all fst tr)"
  by (induction tr arbitrary: out) (auto split: sum.splits option.splits)

text \<open>
  C5. An iteration in which the weak reference has expired, or in which \<^verbatim>\<open>send\<close>
  throws, logs nothing and the loop goes on with the next iteration. The worker leaves its
  loop exactly when it reads the flag cleared: it is still running after any number of
  iterations that all read the flag set, whatever failed in them, and it exits at the
  first test that reads the flag cleared, with what it had logged until then.
\<close>

theorem worker_swallows_poll_errors:
  "poll_once c None = Inr None
   \<and> poll_once c (Some (\<lambda>_. Inl e)) = Inl e
   \<and> fw_logger_worker c ((True, None) # rest) out = fw_logger_worker c rest out
   \<and> fw_logger_worker c ((True, Some (\<lambda>_. Inl e)) # rest) out = fw_logger_worker c rest out
   \<and> (poll_once c strong = Inl e \<longrightarrow>
        fw_logger_worker c ((True, strong) # rest) out = fw_logger_worker c rest out)
   \<and> (fst (fw_logger_worker c tr out) = Exited) = (\<not> list_all fst tr)
   \<and> (fst (fw_logger_worker c tr out) = Still_Running) = list_all fst tr
   \<and> (list_all fst pre \<longrightarrow>
        fw_logger_worker c (pre @ (False, strong) # post) out =
          (Exited, snd (fw_logger_worker c pre out)))"
proof -
  have "(fst (fw_logger_worker c tr out) = Still_Running) = list_all fst tr"
    using worker_exited_iff [of c tr out]
    by (cases "fst (fw_logger_worker c tr out)") simp_all
  then show ?thesis
    by (simp add: worker_exited_iff worker_exits_at_cleared_flag worker_skips_failed_poll)
      (simp add: poll_once_def)
qed

theorem worker_swallows_poll_errors_witness:
  "poll_once \<lparr>cmd = 0x0F, param1 = 500\<rparr> (Some (\<lambda>_. Inl transport_failure)) = Inl transport_failure
   \<and> fw_logger_worker \<lparr>cmd = 0x0F, param1 = 500\<rparr>
        ((True, Some (\<lambda>_. Inl transport_failure)) # [(True, Some (\<lambda>_. Inr [0x0A]))]) []
       = fw_logger_worker \<lparr>cmd = 0x0F, param1 = 500\<rparr> [(True, Some (\<lambda>_. Inr [0x0A]))] []
   \<and> list_all fst [(True, None :: hw_monitor option), (True, Some (\<lambda>_. Inl transport_failure))]
   \<and> fw_logger_worker \<lparr>cmd = 0x0F, param1 = 500\<rparr>
        ([(True, None), (True, Some (\<lambda>_. Inl transport_failure))] @ (False, None) # []) []
       = (Exited, snd (fw_logger_worker \<lparr>cmd = 0x0F, param1 = 500\<rparr>
            [(True, None), (True, Some (\<lambda>_. Inl transport_failure))] []))"
proof -
  have h: "poll_once \<lparr>cmd = 0x0F, param1 = 500\<rparr> (Some (\<lambda>_. Inl transport_failure))
      = Inl transport_failure"
    "list_all fst [(True, None :: hw_monitor option), (True, Some (\<lambda>_. Inl transport_failure))]"
    by (simp_all add: poll_once_def)
  note a = worker_swallows_poll_errors [of "\<lparr>cmd = 0x0F, param1 = 500\<rparr>" transport_failure
      "[(True, Some (\<lambda>_. Inr [0x0A]))]" "[]" "Some (\<lambda>_. Inl transport_failure)" "[]"
      "[(True, None), (True, Some (\<lambda>_. Inl transport_failure))]"]
  note b = worker_swallows_poll_errors [of "\<lparr>cmd = 0x0F, param1 = 500\<rparr>" transport_failure
      "[]" "[]" None "[]"
      "[(True, None), (True, Some (\<lambda>_. Inl transport_failure))]" "[]"]
  from a have a': "fw_logger_worker \<lparr>cmd = 0x0F, param1 = 500\<rparr>
        ((True, Some (\<lambda>_. Inl transport_failure)) # [(True, Some (\<lambda>_. Inr [0x0A]))]) []
       = fw_logger_worker \<lparr>cmd = 0x0F, param1 = 500\<rparr> [(True, Some (\<lambda>_. Inr [0x0A]))] []"
    using h(1) by blast
  from b have b': "fw_logger_worker \<lparr>cmd = 0x0F, param1 = 500\<rparr>
        ([(True, None), (True, Some (\<lambda>_. Inl transport_failure))] @ (False, None) # []) []
       = (Exited, snd (fw_logger_worker \<lparr>cmd = 0x0F, param1 = 500\<rparr>
            [(True, None), (True, Some (\<lambda>_. Inl transport_failure))] []))"
    using h(2) by blast
  show ?thesis
    using h a' b' by (intro conjI)
qed

section \<open>The range of a struct-field option\<close>

lemma sf_call_step_keeps_option: "fst (snd (sf_call_step iface w c)) = fst w"
  by (cases c) (simp_all add: struct_feild_set_def struct_feild_query_def Let_def)

lemma sf_calls_keep_option: "fst (snd (sf_calls iface w cs)) = fst w"
  by (induction cs arbitrary: w) (simp_all add: Let_def sf_call_step_keeps_option)

lemma sf_calls_ranges:
  "filter is_range_result (fst (sf_calls iface w cs)) =
     replicate (length (filter (\<lambda>c. c = Sf_get_range) cs)) (Range_is (sf_range (fst w)))"
proof (induction cs arbitrary: w)
  case Nil
  then show ?case by simp
next
  case (Cons c cs)
  have "filter is_range_result (fst (sf_calls iface (snd (sf_call_step iface w c)) cs)) =
     replicate (length (filter (\<lambda>c. c = Sf_get_range) cs)) (Range_is (sf_range (fst w)))"
    using Cons.IH [of "snd (sf_call_step iface w c)"]
    by (simp add: sf_call_step_keeps_option)
  then show ?case
    by (cases c) (simp_all add: Let_def struct_feild_get_range_def)
qed

text \<open>
  C9. \<^verbatim>\<open>get_range\<close> of a struct-field option returns the range given to the
  constructor: on the new option, after any sequence of \<^verbatim>\<open>set\<close>, \<^verbatim>\<open>query\<close> and
  \<^verbatim>\<open>get_range\<close> calls, and as the result of every \<^verbatim>\<open>get_range\<close> call inside such a
  sequence, whatever the struct interface does in the calls.
\<close>

theorem struct_feild_get_range_fixed:
  "struct_feild_get_range (make_field_option field rng) = rng
   \<and> struct_feild_get_range
        (fst (snd (sf_calls iface (make_field_option field rng, si) cs))) = rng
   \<and> filter is_range_result (fst (sf_calls iface (make_field_option field rng, si) cs))
       = replicate (length (filter (\<lambda>c. c = Sf_get_range) cs)) (Range_is rng)
   \<and> struct_feild_get_range (fst (snd (struct_feild_set iface v (opt, si))))
       = struct_feild_get_range opt
   \<and> struct_feild_get_range (fst (snd (struct_feild_query iface (opt, si))))
       = struct_feild_get_range opt"
  by (simp add: sf_calls_keep_option sf_calls_ranges)
    (simp add: struct_feild_get_range_def make_field_option_def struct_feild_set_def
      struct_feild_query_def Let_def)

section \<open>The extension-unit round trip\<close>

lemma uint_byte: "uint (word_of_int x :: 8 word) = x mod 256"
  by (simp add: uint_word_of_int)

lemma bytes_value:
  "foldr (\<lambda>b acc. uint b + 256 * acc)
     (map (\<lambda>i. word_of_int (t div 256 ^ i) :: 8 word) [k..<k + n]) 0
   = (t div 256 ^ k) mod 256 ^ n"
proof (induction n arbitrary: k)
  case 0
  then show ?case by simp
next
  case (Suc n)
  have l: "[k..<k + Suc n] = k # [Suc k..<Suc k + n]"
    by (simp add: upt_rec)
  have d: "t div 256 ^ Suc k = (t div 256 ^ k) div 256"
    by (simp only: power_Suc2) (simp add: zdiv_zmult2_eq)
  have "(t div 256 ^ k) mod 256 ^ Suc n
      = 256 * ((t div 256 ^ k) div 256 mod 256 ^ n) + (t div 256 ^ k) mod 256"
    by (simp add: zmod_zmult2_eq)
  then show ?case
    using Suc.IH [of "Suc k"] by (simp only: l list.map foldr.simps o_apply uint_byte d)
qed

lemma mod_of_negative: "- m \<le> t \<Longrightarrow> t < 0 \<Longrightarrow> t mod m = t + (m :: int)"
proof -
  assume a: "- m \<le> t" "t < 0"
  have "t mod m = (t + m) mod m"
    by simp
  also have "\<dots> = t + m"
    using a by (intro mod_pos_pos_trivial) simp_all
  finally show ?thesis .
qed

lemma object_bytes_value:
  "foldr (\<lambda>b acc. uint b + 256 * acc) (object_bytes T t) 0 = t mod 256 ^ sizeof T"
  using bytes_value [of t 0 "sizeof T"] by (simp add: object_bytes_def)

lemma bytes_object_inverse:
  assumes "scalar_min T \<le> t" and "t \<le> scalar_max T"
  shows "bytes_object T (object_bytes T t) = t"
proof (cases "0 \<le> t")
  case True
  with assms show ?thesis
    by (cases T) (simp_all add: bytes_object_def object_bytes_value scalar_min_def scalar_max_def)
next
  case False
  with assms show ?thesis
    by (cases T)
      (simp_all add: bytes_object_def object_bytes_value scalar_min_def scalar_max_def
        mod_of_negative)
qed

lemma to_scalar_in_domain: "scalar_min T \<le> to_scalar T n \<and> to_scalar T n \<le> scalar_max T"
proof -
  have "0 \<le> n mod 2 ^ (8 * sizeof T)" and "n mod 2 ^ (8 * sizeof T) < 2 ^ (8 * sizeof T)"
    by simp_all
  then show ?thesis
    by (cases T) (auto simp: to_scalar_def scalar_min_def scalar_max_def Let_def)
qed

lemma float_to_scalar_is_scalar:
  "scalar_min T \<le> float_to_scalar cast T v \<and> float_to_scalar cast T v \<le> scalar_max T"
  by (cases v) (simp_all add: float_to_scalar_def Let_def to_scalar_in_domain)

lemma float_to_scalar_in_domain:
  "scalar_min T \<le> trunc_toward_zero r \<Longrightarrow> trunc_toward_zero r \<le> scalar_max T \<Longrightarrow>
   float_to_scalar cast T (Finite r) = trunc_toward_zero r"
  by (simp add: float_to_scalar_def)

lemma length_object_bytes: "length (object_bytes T t) = sizeof T"
  by (simp add: object_bytes_def)

lemma xu_round_trip:
  assumes rb: "reads_back dev"
    and ok: "fst (uvc_xu_set dev cast T opt v d) = Returns ()"
  shows "fst (uvc_xu_query dev T opt (snd (uvc_xu_set dev cast T opt v d)))
    = Returns (scalar_to_float (float_to_scalar cast T v))"
proof -
  let ?t = "float_to_scalar cast T v"
  let ?bs = "object_bytes T ?t"
  have s: "uvc_xu_set dev cast T opt v d = set_xu dev (xu opt) (xu_id opt) ?bs d"
    by (simp add: uvc_xu_set_def invoke_powered_def)
  have lo: "scalar_min T \<le> ?t" and hi: "?t \<le> scalar_max T"
    using float_to_scalar_is_scalar [of T cast v] by simp_all
  have "fst (get_xu dev (xu opt) (xu_id opt) (length ?bs)
      (snd (set_xu dev (xu opt) (xu_id opt) ?bs d))) = Returns ?bs"
    using rb ok unfolding reads_back_def s by blast
  then show ?thesis
    by (simp add: s uvc_xu_query_def invoke_powered_def Let_def length_object_bytes
        bytes_object_inverse [OF lo hi])
qed

lemma trunc_within:
  assumes "of_int lo \<le> r" and "r \<le> of_int hi"
  shows "lo \<le> trunc_toward_zero r \<and> trunc_toward_zero r \<le> hi"
proof (cases "0 \<le> r")
  case True
  have "of_int \<lfloor>r\<rfloor> \<le> r"
    by simp
  with assms(2) have "(of_int \<lfloor>r\<rfloor> :: rat) \<le> of_int hi"
    by linarith
  then have "\<lfloor>r\<rfloor> \<le> hi"
    by (simp only: of_int_le_iff)
  with True assms(1) show ?thesis
    by (simp add: trunc_toward_zero_def le_floor_iff)
next
  case False
  have "r \<le> of_int \<lceil>r\<rceil>"
    by simp
  with assms(1) have "(of_int lo :: rat) \<le> of_int \<lceil>r\<rceil>"
    by linarith
  then have "lo \<le> \<lceil>r\<rceil>"
    by (simp only: of_int_le_iff)
  with False assms(2) show ?thesis
    by (simp add: trunc_toward_zero_def ceiling_le_iff)
qed

lemma bit_length_le: "a < 2 ^ k \<Longrightarrow> bit_length a \<le> k"
proof (induction k arbitrary: a)
  case 0
  then show ?case by (simp add: bit_length.simps)
next
  case (Suc k)
  show ?case
  proof (cases "a = 0")
    case True
    then show ?thesis by (simp add: bit_length.simps)
  next
    case False
    from Suc.prems have "a div 2 < 2 ^ k"
      by simp
    then have "bit_length (a div 2) \<le> k"
      by (rule Suc.IH)
    with False show ?thesis
      by (subst bit_length.simps) simp
  qed
qed

lemma bit_length_double: "0 < a \<Longrightarrow> bit_length (2 * a) = Suc (bit_length a)"
  by (subst bit_length.simps) simp

lemma bit_length_shift: "0 < a \<Longrightarrow> bit_length (a * 2 ^ k) = bit_length a + k"
proof (induction k)
  case 0
  then show ?case by simp
next
  case (Suc k)
  then have "bit_length (2 * (a * 2 ^ k)) = Suc (bit_length (a * 2 ^ k))"
    by (intro bit_length_double) simp
  with Suc show ?case
    by (simp add: mult.assoc mult.left_commute)
qed

lemma round_binary32_exact:
  assumes "2 ^ (bit_length (nat \<bar>n\<bar>) - 24) dvd nat \<bar>n\<bar>"
  shows "round_binary32 n = of_int n"
proof -
  let ?a = "nat \<bar>n\<bar>"
  let ?e = "bit_length ?a - 24"
  from assms have r: "?a mod 2 ^ ?e = 0"
    by simp
  from assms have q: "?a div 2 ^ ?e * 2 ^ ?e = ?a"
    by simp
  have "round_binary32 n = of_int (sgn n * int (?a div 2 ^ ?e * 2 ^ ?e))"
    unfolding round_binary32_def round_nat_def Let_def r by simp
  also have "\<dots> = of_int (sgn n * int ?a)"
    by (simp only: q)
  also have "\<dots> = of_int n"
    by (simp add: sgn_mult_abs)
  finally show ?thesis .
qed

lemma round_binary32_small: "\<bar>n\<bar> < 2 ^ 24 \<Longrightarrow> round_binary32 n = of_int n"
proof (rule round_binary32_exact)
  assume "\<bar>n\<bar> < 2 ^ 24"
  then have "nat \<bar>n\<bar> < 2 ^ 24"
    by simp
  then have "bit_length (nat \<bar>n\<bar>) \<le> 24"
    by (rule bit_length_le)
  then show "2 ^ (bit_length (nat \<bar>n\<bar>) - 24) dvd nat \<bar>n\<bar>"
    by simp
qed

lemma abs_trunc_le: "of_int \<bar>trunc_toward_zero r\<bar> \<le> \<bar>r\<bar>"
proof (cases "0 \<le> r")
  case True
  then show ?thesis
    by (simp add: trunc_toward_zero_def)
next
  case False
  then have "\<lceil>r\<rceil> \<le> 0"
    by (simp add: ceiling_le_zero)
  moreover have "r \<le> of_int \<lceil>r\<rceil>"
    by simp
  ultimately show ?thesis
    using False by (simp add: trunc_toward_zero_def)
qed

lemma trunc_of_int: "trunc_toward_zero (of_int n) = n"
  by (simp add: trunc_toward_zero_def)

lemma round_trunc_binary32:
  assumes m: "\<bar>m\<bar> < 2 ^ 24"
  shows "round_binary32 (trunc_toward_zero (binary32 m e)) = of_int (trunc_toward_zero (binary32 m e))"
proof (cases "0 \<le> e")
  case True
  define k where "k = nat e"
  have "binary32 m e = of_int (m * 2 ^ k)"
    using True by (simp add: binary32_def k_def power_int_def)
  then have t: "trunc_toward_zero (binary32 m e) = m * 2 ^ k"
    by (simp only: trunc_of_int)
  have "round_binary32 (m * 2 ^ k) = of_int (m * 2 ^ k)"
  proof (rule round_binary32_exact)
    have a: "nat \<bar>m * 2 ^ k\<bar> = nat \<bar>m\<bar> * 2 ^ k"
      by (simp add: abs_mult nat_mult_distrib nat_power_eq)
    show "2 ^ (bit_length (nat \<bar>m * 2 ^ k\<bar>) - 24) dvd nat \<bar>m * 2 ^ k\<bar>"
    proof (cases "m = 0")
      case True
      then show ?thesis by simp
    next
      case False
      then have pos: "0 < nat \<bar>m\<bar>"
        by simp
      have "nat \<bar>m\<bar> < 2 ^ 24"
        using m by simp
      then have "bit_length (nat \<bar>m\<bar>) \<le> 24"
        by (rule bit_length_le)
      then have "bit_length (nat \<bar>m\<bar>) + k - 24 \<le> k"
        by simp
      then have "(2 :: nat) ^ (bit_length (nat \<bar>m\<bar>) + k - 24) dvd 2 ^ k"
        by (rule le_imp_power_dvd)
      then show ?thesis
        by (simp only: a bit_length_shift [OF pos]) (rule dvd_mult)
    qed
  qed
  then show ?thesis
    by (simp only: t)
next
  case False
  then have "(2 :: rat) powi e \<le> 1"
    by (simp add: power_int_def power_le_one)
  moreover have "0 \<le> (2 :: rat) powi e"
    by simp
  ultimately have "\<bar>binary32 m e\<bar> \<le> \<bar>of_int m\<bar>"
    by (simp add: binary32_def abs_mult mult_left_le)
  then have "of_int \<bar>trunc_toward_zero (binary32 m e)\<bar> \<le> (of_int \<bar>m\<bar> :: rat)"
    using abs_trunc_le [of "binary32 m e"] by simp
  then have "\<bar>trunc_toward_zero (binary32 m e)\<bar> \<le> \<bar>m\<bar>"
    by (simp only: of_int_le_iff)
  with m have "\<bar>trunc_toward_zero (binary32 m e)\<bar> < 2 ^ 24"
    by simp
  then show ?thesis
    by (rule round_binary32_small)
qed

lemma reads_back_register_file: "reads_back register_file"
  by (auto simp: reads_back_def register_file_def split: option.splits if_splits)

text \<open>
  C2. On a device whose registers keep what is written to them, a \<^verbatim>\<open>set\<close> that
  returns followed by \<^verbatim>\<open>query\<close> returns the value that \<^verbatim>\<open>set\<close> narrowed to
  \<^verbatim>\<open>T\<close>, widened to \<^verbatim>\<open>float\<close>: for every value, so for every value within the
  range the device reports for the register, and whatever the platform's conversion gives
  outside the values of \<^verbatim>\<open>T\<close>. The narrowed value is always a value of \<^verbatim>\<open>T\<close>, and it
  is the value with its fractional part discarded whenever that is a value of \<^verbatim>\<open>T\<close>,
  as it is for every value within a reported range that lies within the values of
  \<^verbatim>\<open>T\<close>. For every binary32 value, as for every value whose truncation has a magnitude
  below \<open>2\<^sup>2\<^sup>4\<close>, the widening is then exact: \<^verbatim>\<open>query\<close> returns the truncated value
  itself.
\<close>

theorem xu_set_query_round_trip:
  assumes "reads_back dev"
    and "fst (uvc_xu_set dev cast T opt v d) = Returns ()"
  shows "fst (uvc_xu_query dev T opt (snd (uvc_xu_set dev cast T opt v d)))
        = Returns (scalar_to_float (float_to_scalar cast T v))
    \<and> scalar_min T \<le> float_to_scalar cast T v \<and> float_to_scalar cast T v \<le> scalar_max T
    \<and> (fst (get_xu_range dev (xu opt) (xu_id opt) (sizeof T) d') = Returns cr
        \<and> v = Finite r \<and> of_int (cr_min cr) \<le> r \<and> r \<le> of_int (cr_max cr) \<longrightarrow>
        fst (uvc_xu_query dev T opt (snd (uvc_xu_set dev cast T opt v d)))
          = Returns (scalar_to_float (float_to_scalar cast T v))
        \<and> cr_min cr \<le> trunc_toward_zero r \<and> trunc_toward_zero r \<le> cr_max cr
        \<and> (scalar_min T \<le> cr_min cr \<and> cr_max cr \<le> scalar_max T \<longrightarrow>
            float_to_scalar cast T v = trunc_toward_zero r
            \<and> fst (uvc_xu_query dev T opt (snd (uvc_xu_set dev cast T opt v d)))
               = Returns (scalar_to_float (trunc_toward_zero r))))
    \<and> (v = Finite r \<and> scalar_min T \<le> trunc_toward_zero r
        \<and> trunc_toward_zero r \<le> scalar_max T \<longrightarrow>
        float_to_scalar cast T v = trunc_toward_zero r
        \<and> fst (uvc_xu_query dev T opt (snd (uvc_xu_set dev cast T opt v d)))
           = Returns (scalar_to_float (trunc_toward_zero r))
        \<and> (\<bar>trunc_toward_zero r\<bar> < 2 ^ 24 \<longrightarrow>
            fst (uvc_xu_query dev T opt (snd (uvc_xu_set dev cast T opt v d)))
              = Returns (Finite (of_int (trunc_toward_zero r))))
        \<and> (r = binary32 m e \<and> \<bar>m\<bar> < 2 ^ 24 \<longrightarrow>
            fst (uvc_xu_query dev T opt (snd (uvc_xu_set dev cast T opt v d)))
              = Returns (Finite (of_int (trunc_toward_zero r)))))"
proof -
  let ?q = "fst (uvc_xu_query dev T opt (snd (uvc_xu_set dev cast T opt v d)))"
  have q: "?q = Returns (scalar_to_float (float_to_scalar cast T v))"
    using assms by (rule xu_round_trip)
  have dom: "scalar_min T \<le> float_to_scalar cast T v \<and> float_to_scalar cast T v \<le> scalar_max T"
    by (rule float_to_scalar_is_scalar)
  have c: "float_to_scalar cast T v = trunc_toward_zero r"
    if "v = Finite r" "scalar_min T \<le> trunc_toward_zero r" "trunc_toward_zero r \<le> scalar_max T"
    using that by (simp add: float_to_scalar_in_domain)
  have s: "scalar_to_float (trunc_toward_zero r) = Finite (of_int (trunc_toward_zero r))"
    if "\<bar>trunc_toward_zero r\<bar> < 2 ^ 24"
    using that by (simp add: scalar_to_float_def round_binary32_small)
  have b: "scalar_to_float (trunc_toward_zero r) = Finite (of_int (trunc_toward_zero r))"
    if "r = binary32 m e \<and> \<bar>m\<bar> < 2 ^ 24"
    using that by (simp add: scalar_to_float_def round_trunc_binary32)
  have rg: "(cr_min cr \<le> trunc_toward_zero r \<and> trunc_toward_zero r \<le> cr_max cr)
      \<and> (scalar_min T \<le> cr_min cr \<and> cr_max cr \<le> scalar_max T \<longrightarrow>
          float_to_scalar cast T v = trunc_toward_zero r
          \<and> ?q = Returns (scalar_to_float (trunc_toward_zero r)))"
    if "v = Finite r" "of_int (cr_min cr) \<le> r" "r \<le> of_int (cr_max cr)"
  proof -
    have w: "cr_min cr \<le> trunc_toward_zero r \<and> trunc_toward_zero r \<le> cr_max cr"
      using that(2,3) by (rule trunc_within)
    have "float_to_scalar cast T v = trunc_toward_zero r"
      if "scalar_min T \<le> cr_min cr \<and> cr_max cr \<le> scalar_max T"
      using that w \<open>v = Finite r\<close> by (intro c) simp_all
    with w q show ?thesis
      by simp
  qed
  have tr: "float_to_scalar cast T v = trunc_toward_zero r
      \<and> ?q = Returns (scalar_to_float (trunc_toward_zero r))
      \<and> (\<bar>trunc_toward_zero r\<bar> < 2 ^ 24 \<longrightarrow>
          ?q = Returns (Finite (of_int (trunc_toward_zero r))))
      \<and> (r = binary32 m e \<and> \<bar>m\<bar> < 2 ^ 24 \<longrightarrow>
          ?q = Returns (Finite (of_int (trunc_toward_zero r))))"
    if "v = Finite r" "scalar_min T \<le> trunc_toward_zero r" "trunc_toward_zero r \<le> scalar_max T"
  proof -
    have e: "float_to_scalar cast T v = trunc_toward_zero r"
      using that by (rule c)
    with q have q': "?q = Returns (scalar_to_float (trunc_toward_zero r))"
      by simp
    show ?thesis
      using e q' s b by simp
  qed
  show ?thesis
    using q dom rg tr by blast
qed

theorem xu_set_query_round_trip_witness:
  "reads_back register_file
   \<and> fst (uvc_xu_set register_file wrapping_cast U16
        \<lparr>xu = 0, xu_id = 3, xu_desciption = ''laser power''\<rparr>
        (Finite (5 / 2)) [(0, 3) \<mapsto> [0, 0]]) = Returns ()
   \<and> fst (get_xu_range register_file
        (xu \<lparr>xu = 0, xu_id = 3, xu_desciption = ''laser power''\<rparr>)
        (xu_id \<lparr>xu = 0 :: nat, xu_id = 3, xu_desciption = ''laser power''\<rparr>)
        (sizeof U16) [(0, 3) \<mapsto> [0, 0]])
       = Returns \<lparr>cr_min = 0, cr_max = 65535, cr_def = 0, cr_step = 1\<rparr>
   \<and> of_int (cr_min \<lparr>cr_min = 0, cr_max = 65535, cr_def = 0, cr_step = 1\<rparr>) \<le> (5 / 2 :: rat)
   \<and> (5 / 2 :: rat) \<le> of_int (cr_max \<lparr>cr_min = 0, cr_max = 65535, cr_def = 0, cr_step = 1\<rparr>)
   \<and> scalar_min U16 \<le> cr_min \<lparr>cr_min = 0, cr_max = 65535, cr_def = 0, cr_step = 1\<rparr>
   \<and> cr_max \<lparr>cr_min = 0, cr_max = 65535, cr_def = 0, cr_step = 1\<rparr> \<le> scalar_max U16
   \<and> 5 / 2 = binary32 5 (- 1) \<and> \<bar>5 :: int\<bar> < 2 ^ 24
   \<and> float_to_scalar wrapping_cast U16 (Finite (5 / 2)) = 2
   \<and> fst (uvc_xu_query register_file U16 \<lparr>xu = 0, xu_id = 3, xu_desciption = ''laser power''\<rparr>
        (snd (uvc_xu_set register_file wrapping_cast U16
          \<lparr>xu = 0, xu_id = 3, xu_desciption = ''laser power''\<rparr>
          (Finite (5 / 2)) [(0, 3) \<mapsto> [0, 0]])))
       = Returns (Finite 2)
   \<and> fst (uvc_xu_set register_file wrapping_cast I8
        \<lparr>xu = 0, xu_id = 3, xu_desciption = ''laser power''\<rparr>
        (Finite 200) [(0, 3) \<mapsto> [0]]) = Returns ()
   \<and> fst (uvc_xu_query register_file I8 \<lparr>xu = 0, xu_id = 3, xu_desciption = ''laser power''\<rparr>
        (snd (uvc_xu_set register_file wrapping_cast I8
          \<lparr>xu = 0, xu_id = 3, xu_desciption = ''laser power''\<rparr>
          (Finite 200) [(0, 3) \<mapsto> [0]])))
       = Returns (Finite (- 56))"
proof -
  let ?opt = "\<lparr>xu = 0 :: nat, xu_id = 3, xu_desciption = ''laser power''\<rparr>"
  let ?cr = "\<lparr>cr_min = 0, cr_max = 65535, cr_def = 0, cr_step = 1\<rparr>"
  let ?d = "[(0 :: nat, 3 :: int) \<mapsto> [0, 0 :: 8 word]]"
  let ?d8 = "[(0 :: nat, 3 :: int) \<mapsto> [0 :: 8 word]]"
  have t: "trunc_toward_zero (5 / 2) = 2"
    by code_simp
  have t8: "float_to_scalar wrapping_cast I8 (Finite 200) = - 56"
    by (simp add: float_to_scalar_def trunc_toward_zero_def scalar_min_def scalar_max_def
        to_scalar_def wrapping_cast_def)
  have h1: "reads_back register_file"
    by (rule reads_back_register_file)
  have h2: "fst (uvc_xu_set register_file wrapping_cast U16 ?opt (Finite (5 / 2)) ?d) = Returns ()"
    by (simp add: uvc_xu_set_def invoke_powered_def register_file_def object_bytes_def)
  have h3: "fst (get_xu_range register_file (xu ?opt) (xu_id ?opt) (sizeof U16) ?d) = Returns ?cr"
    by (simp add: register_file_def)
  have h4: "of_int (cr_min ?cr) \<le> (5 / 2 :: rat)" "(5 / 2 :: rat) \<le> of_int (cr_max ?cr)"
    "scalar_min U16 \<le> cr_min ?cr" "cr_max ?cr \<le> scalar_max U16"
    by (simp_all add: scalar_min_def scalar_max_def)
  have h5: "(5 / 2 :: rat) = binary32 5 (- 1)" "\<bar>5 :: int\<bar> < 2 ^ 24"
    by (simp_all add: binary32_def power_int_minus)
  have h6: "fst (uvc_xu_set register_file wrapping_cast I8 ?opt (Finite 200) ?d8) = Returns ()"
    by (simp add: uvc_xu_set_def invoke_powered_def register_file_def object_bytes_def)
  note w = xu_set_query_round_trip [OF h1 h2, where d' = ?d and cr = ?cr and r = "5 / 2"
      and m = 5 and e = "- 1"]
  from w h3 h4 have c: "float_to_scalar wrapping_cast U16 (Finite (5 / 2)) = trunc_toward_zero (5 / 2)"
    by blast
  then have c2: "float_to_scalar wrapping_cast U16 (Finite (5 / 2)) = 2"
    by (simp only: t)
  from c have dom: "scalar_min U16 \<le> trunc_toward_zero (5 / 2)"
    "trunc_toward_zero (5 / 2) \<le> scalar_max U16"
    using w by auto
  from w dom h5 have "fst (uvc_xu_query register_file U16 ?opt
        (snd (uvc_xu_set register_file wrapping_cast U16 ?opt (Finite (5 / 2)) ?d)))
       = Returns (Finite (of_int (trunc_toward_zero (5 / 2))))"
    by blast
  then have res: "fst (uvc_xu_query register_file U16 ?opt
        (snd (uvc_xu_set register_file wrapping_cast U16 ?opt (Finite (5 / 2)) ?d)))
       = Returns (Finite 2)"
    by (simp only: t of_int_numeral)
  note w8 = xu_set_query_round_trip [OF h1 h6]
  from w8 have "fst (uvc_xu_query register_file I8 ?opt
        (snd (uvc_xu_set register_file wrapping_cast I8 ?opt (Finite 200) ?d8)))
       = Returns (scalar_to_float (float_to_scalar wrapping_cast I8 (Finite 200)))"
    by blast
  then have res8: "fst (uvc_xu_query register_file I8 ?opt
        (snd (uvc_xu_set register_file wrapping_cast I8 ?opt (Finite 200) ?d8)))
       = Returns (Finite (- 56))"
    by (simp add: t8 scalar_to_float_def round_binary32_small)
  show ?thesis
    using h1 h2 h3 h4 h5 c2 res h6 res8 by (intro conjI)
qed

section \<open>The ranges\<close>

lemma bit_length_less: "a < 2 ^ bit_length a"
proof (induction a rule: bit_length.induct)
  case (1 n)
  show ?case
  proof (cases "n = 0")
    case True
    then show ?thesis by simp
  next
    case False
    then have "n div 2 < 2 ^ bit_length (n div 2)"
      by (rule "1.IH")
    then have "n < 2 * 2 ^ bit_length (n div 2)"
      by simp
    with False show ?thesis
      by (subst bit_length.simps) simp
  qed
qed

lemma bit_length_ge: "0 < a \<Longrightarrow> 2 ^ (bit_length a - 1) \<le> a"
proof (induction a rule: bit_length.induct)
  case (1 n)
  show ?case
  proof (cases "n div 2 = 0")
    case True
    with "1.prems" have "n = 1"
      by (simp add: div_eq_0_iff)
    then show ?thesis
      by (simp add: bit_length.simps [of "Suc 0"] bit_length.simps [of 0])
  next
    case False
    with "1.prems" have ih: "2 ^ (bit_length (n div 2) - 1) \<le> n div 2"
      by (intro "1.IH") simp_all
    have "0 < bit_length (n div 2)"
      using False by (subst bit_length.simps) simp
    then have "(2 :: nat) ^ bit_length (n div 2) = 2 * 2 ^ (bit_length (n div 2) - 1)"
      by (cases "bit_length (n div 2)") simp_all
    with ih have "2 ^ bit_length (n div 2) \<le> n"
      by simp
    with "1.prems" show ?thesis
      by (subst bit_length.simps) simp
  qed
qed

lemma bit_length_mono: "a \<le> b \<Longrightarrow> bit_length a \<le> bit_length b"
proof (rule ccontr)
  assume ab: "a \<le> b" and "\<not> bit_length a \<le> bit_length b"
  then have lt: "bit_length b \<le> bit_length a - 1" and pos: "0 < bit_length a"
    by simp_all
  from pos have "0 < a"
    by (cases "a = 0") (simp_all add: bit_length.simps [of 0])
  then have "2 ^ (bit_length a - 1) \<le> a"
    by (rule bit_length_ge)
  moreover have "(2 :: nat) ^ bit_length b \<le> 2 ^ (bit_length a - 1)"
    using lt by (simp add: power_increasing)
  moreover have "b < 2 ^ bit_length b"
    by (rule bit_length_less)
  ultimately show False
    using ab by linarith
qed

lemma round_nat_same_exponent:
  assumes ab: "a \<le> b"
  shows "(let q = a div 2 ^ e; r = a mod 2 ^ e
          in (if 2 ^ e < 2 * r \<or> (2 * r = 2 ^ e \<and> odd q) then q + 1 else q) * 2 ^ e)
       \<le> (let q = b div 2 ^ e; r = b mod 2 ^ e
          in (if 2 ^ e < 2 * r \<or> (2 * r = 2 ^ e \<and> odd q) then q + 1 else q) * (2 :: nat) ^ e)"
proof -
  let ?qa = "a div 2 ^ e" and ?qb = "b div 2 ^ e"
  let ?ra = "a mod 2 ^ e" and ?rb = "b mod 2 ^ e"
  have q: "?qa \<le> ?qb"
    using ab by (rule div_le_mono)
  show ?thesis
  proof (cases "?qa = ?qb")
    case True
    have "?qa * 2 ^ e + ?ra \<le> ?qb * 2 ^ e + ?rb"
      using ab by (simp only: div_mult_mod_eq)
    with True have "?ra \<le> ?rb"
      by simp
    then have "(if 2 ^ e < 2 * ?ra \<or> (2 * ?ra = 2 ^ e \<and> odd ?qa) then ?qa + 1 else ?qa)
        \<le> (if 2 ^ e < 2 * ?rb \<or> (2 * ?rb = 2 ^ e \<and> odd ?qb) then ?qb + 1 else ?qb)"
      using True by auto
    then show ?thesis
      by (simp only: Let_def mult_le_mono1)
  next
    case False
    with q have "?qa + 1 \<le> ?qb"
      by simp
    then have "(if 2 ^ e < 2 * ?ra \<or> (2 * ?ra = 2 ^ e \<and> odd ?qa) then ?qa + 1 else ?qa)
        \<le> (if 2 ^ e < 2 * ?rb \<or> (2 * ?rb = 2 ^ e \<and> odd ?qb) then ?qb + 1 else ?qb)"
      by auto
    then show ?thesis
      by (simp only: Let_def mult_le_mono1)
  qed
qed

lemma round_nat_upper: "round_nat a \<le> 2 ^ bit_length a"
proof -
  let ?e = "bit_length a - 24"
  have e: "?e \<le> bit_length a"
    by simp
  then have p: "(2 :: nat) ^ bit_length a = 2 ^ (bit_length a - ?e) * 2 ^ ?e"
    by (simp only: power_add [symmetric] le_add_diff_inverse2)
  have "a < 2 ^ (bit_length a - ?e) * 2 ^ ?e"
    using bit_length_less [of a] by (simp only: p)
  then have "a div 2 ^ ?e < 2 ^ (bit_length a - ?e)"
    by (simp add: less_mult_imp_div_less)
  then have "a div 2 ^ ?e + 1 \<le> 2 ^ (bit_length a - ?e)"
    by simp
  then have "(a div 2 ^ ?e + 1) * 2 ^ ?e \<le> 2 ^ (bit_length a - ?e) * 2 ^ ?e"
    by (rule mult_le_mono1)
  moreover have "round_nat a \<le> (a div 2 ^ ?e + 1) * 2 ^ ?e"
    by (simp add: round_nat_def Let_def)
  ultimately show ?thesis
    by (simp only: p)
qed

lemma round_nat_lower:
  assumes "24 < bit_length a"
  shows "2 ^ (bit_length a - 1) \<le> round_nat a"
proof -
  let ?e = "bit_length a - 24"
  from assms have pos: "0 < a"
    by (cases "a = 0") (simp_all add: bit_length.simps [of 0])
  from assms have e: "?e \<le> bit_length a - 1"
    by simp
  then have p: "(2 :: nat) ^ (bit_length a - 1) = 2 ^ (bit_length a - 1 - ?e) * 2 ^ ?e"
    by (simp only: power_add [symmetric] le_add_diff_inverse2)
  have "2 ^ (bit_length a - 1 - ?e) * 2 ^ ?e \<le> a"
    using bit_length_ge [OF pos] by (simp only: p)
  then have "2 ^ (bit_length a - 1 - ?e) \<le> a div 2 ^ ?e"
    by (simp add: less_eq_div_iff_mult_less_eq)
  then have "2 ^ (bit_length a - 1 - ?e) * 2 ^ ?e \<le> a div 2 ^ ?e * 2 ^ ?e"
    by (rule mult_le_mono1)
  moreover have "a div 2 ^ ?e * 2 ^ ?e \<le> round_nat a"
    by (simp add: round_nat_def Let_def)
  ultimately show ?thesis
    by (simp only: p)
qed

lemma round_nat_mono:
  assumes ab: "a \<le> b"
  shows "round_nat a \<le> round_nat b"
proof (cases "bit_length a - 24 = bit_length b - 24")
  case True
  show ?thesis
    using round_nat_same_exponent [OF ab, of "bit_length b - 24"]
    by (simp add: round_nat_def True Let_def)
next
  case False
  have m: "bit_length a \<le> bit_length b"
    using ab by (rule bit_length_mono)
  with False have big: "24 < bit_length b" and lt: "bit_length a \<le> bit_length b - 1"
    by simp_all
  have "round_nat a \<le> 2 ^ bit_length a"
    by (rule round_nat_upper)
  also have "\<dots> \<le> 2 ^ (bit_length b - 1)"
    using lt by (simp add: power_increasing)
  also have "\<dots> \<le> round_nat b"
    using big by (rule round_nat_lower)
  finally show ?thesis .
qed

lemma round_binary32_mono:
  assumes nm: "n \<le> m"
  shows "round_binary32 n \<le> round_binary32 m"
proof -
  consider "0 \<le> n" | "m \<le> 0" | "n < 0" "0 < m"
    by linarith
  then have "sgn n * int (round_nat (nat \<bar>n\<bar>)) \<le> sgn m * int (round_nat (nat \<bar>m\<bar>))"
  proof cases
    case 1
    with nm have "round_nat (nat \<bar>n\<bar>) \<le> round_nat (nat \<bar>m\<bar>)"
      by (intro round_nat_mono) simp
    moreover have "sgn n * int (round_nat (nat \<bar>n\<bar>)) \<le> int (round_nat (nat \<bar>n\<bar>))"
      using 1 by (cases "n = 0") (simp_all add: round_nat_def)
    moreover have "sgn m * int (round_nat (nat \<bar>m\<bar>)) = int (round_nat (nat \<bar>m\<bar>))"
      if "m \<noteq> 0"
      using that 1 nm by simp
    moreover have "n = 0" if "m = 0"
      using that 1 nm by simp
    ultimately show ?thesis
      by (cases "m = 0") auto
  next
    case 2
    with nm have "round_nat (nat \<bar>m\<bar>) \<le> round_nat (nat \<bar>n\<bar>)"
      by (intro round_nat_mono) simp
    moreover have "sgn n * int (round_nat (nat \<bar>n\<bar>)) = - int (round_nat (nat \<bar>n\<bar>))"
      if "n \<noteq> 0"
      using that 2 nm by simp
    moreover have "- int (round_nat (nat \<bar>m\<bar>)) \<le> sgn m * int (round_nat (nat \<bar>m\<bar>))"
      using 2 by (cases "m = 0") (simp_all add: round_nat_def)
    moreover have "m = 0" if "n = 0"
      using that 2 nm by simp
    ultimately show ?thesis
      by (cases "n = 0") auto
  next
    case 3
    then show ?thesis
      by simp
  qed
  then show ?thesis
    by (simp only: round_binary32_def of_int_le_iff)
qed

lemma scalar_to_float_mono: "n \<le> m \<Longrightarrow> fle (scalar_to_float n) (scalar_to_float m)"
  by (simp add: scalar_to_float_def round_binary32_mono)

text \<open>
  C4. The range of a firmware-log option is the constant \<open>{0, 1, 1, 0}\<close>, which has
  \<open>min \<le> def \<le> max\<close>. The range of a struct-field option is the range given to the
  constructor, which checks nothing: it has \<open>min \<le> def \<le> max\<close> exactly when the given
  range has. The range of an extension-unit option, and of a power-unit option as the
  spec describes it, is the range the device reports, each member widened to
  \<^verbatim>\<open>float\<close>: it has \<open>min \<le> def \<le> max\<close> whenever the reported range has.
\<close>

theorem get_range_consistent_when_source_is:
  "fw_logger_get_range s =
     \<lparr>range_min = Finite 0, range_max = Finite 1, step = Finite 1, def = Finite 0\<rparr>
   \<and> range_consistent (fw_logger_get_range s)
   \<and> struct_feild_get_range (make_field_option field rng) = rng
   \<and> range_consistent (struct_feild_get_range (make_field_option field rng))
       = range_consistent rng
   \<and> float_range cr =
       \<lparr>range_min = scalar_to_float (cr_min cr), range_max = scalar_to_float (cr_max cr),
        step = scalar_to_float (cr_step cr), def = scalar_to_float (cr_def cr)\<rparr>
   \<and> (fst (get_xu_range dev (xu opt) (xu_id opt) (sizeof T) d) = Returns cr \<longrightarrow>
        fst (uvc_xu_get_range dev T opt d) = Returns (float_range cr))
   \<and> (fst (get_pu_range (pu_id popt) pd) = Returns cr \<longrightarrow>
        fst (uvc_pu_get_range get_pu_range popt pd) = Returns (float_range cr))
   \<and> (cr_min cr \<le> cr_def cr \<and> cr_def cr \<le> cr_max cr \<longrightarrow>
        range_consistent (float_range cr))"
  by (simp add: range_consistent_def fw_logger_get_range_def struct_feild_get_range_def
      make_field_option_def uvc_xu_get_range_def uvc_pu_get_range_def invoke_powered_def
      Let_def float_range_def scalar_to_float_mono)

theorem get_range_consistent_when_source_is_witness:
  "fst (get_xu_range register_file
          (xu \<lparr>xu = 0 :: nat, xu_id = 3, xu_desciption = ''laser power''\<rparr>)
          (xu_id \<lparr>xu = 0 :: nat, xu_id = 3, xu_desciption = ''laser power''\<rparr>)
          (sizeof U16) [(0, 3) \<mapsto> [0, 0]])
     = Returns \<lparr>cr_min = 0, cr_max = 65535, cr_def = 0, cr_step = 1\<rparr>
   \<and> fst ((\<lambda>(c :: nat) (d :: unit).
          (Returns \<lparr>cr_min = 0, cr_max = 65535, cr_def = 0, cr_step = 1\<rparr>, d))
          (pu_id \<lparr>pu_id = 7 :: nat\<rparr>) ())
     = Returns \<lparr>cr_min = 0, cr_max = 65535, cr_def = 0, cr_step = 1\<rparr>
   \<and> cr_min \<lparr>cr_min = 0, cr_max = 65535, cr_def = 0, cr_step = 1\<rparr>
       \<le> cr_def \<lparr>cr_min = 0, cr_max = 65535, cr_def = 0, cr_step = 1\<rparr>
   \<and> cr_def \<lparr>cr_min = 0, cr_max = 65535, cr_def = 0, cr_step = 1\<rparr>
       \<le> cr_max \<lparr>cr_min = 0, cr_max = 65535, cr_def = 0, cr_step = 1\<rparr>
   \<and> float_range \<lparr>cr_min = 0, cr_max = 65535, cr_def = 0, cr_step = 1\<rparr>
     = \<lparr>range_min = Finite 0, range_max = Finite 65535, step = Finite 1, def = Finite 0\<rparr>
   \<and> fst (uvc_xu_get_range register_file U16
          \<lparr>xu = 0, xu_id = 3, xu_desciption = ''laser power''\<rparr> [(0, 3) \<mapsto> [0, 0]])
     = Returns (float_range \<lparr>cr_min = 0, cr_max = 65535, cr_def = 0, cr_step = 1\<rparr>)
   \<and> fst (uvc_pu_get_range
          (\<lambda>(c :: nat) (d :: unit).
            (Returns \<lparr>cr_min = 0, cr_max = 65535, cr_def = 0, cr_step = 1\<rparr>, d))
          \<lparr>pu_id = 7 :: nat\<rparr> ())
     = Returns (float_range \<lparr>cr_min = 0, cr_max = 65535, cr_def = 0, cr_step = 1\<rparr>)
   \<and> range_consistent (float_range \<lparr>cr_min = 0, cr_max = 65535, cr_def = 0, cr_step = 1\<rparr>)"
proof -
  let ?cr = "\<lparr>cr_min = 0, cr_max = 65535, cr_def = 0, cr_step = 1\<rparr>"
  let ?opt = "\<lparr>xu = 0 :: nat, xu_id = 3, xu_desciption = ''laser power''\<rparr>"
  let ?pu = "\<lambda>(c :: nat) (d :: unit). (Returns ?cr, d)"
  have h: "fst (get_xu_range register_file (xu ?opt) (xu_id ?opt) (sizeof U16)
      [(0, 3) \<mapsto> [0, 0]]) = Returns ?cr"
    "fst (?pu (pu_id \<lparr>pu_id = 7 :: nat\<rparr>) ()) = Returns ?cr"
    "cr_min ?cr \<le> cr_def ?cr" "cr_def ?cr \<le> cr_max ?cr"
    by (simp_all add: register_file_def)
  have f: "scalar_to_float 0 = Finite 0" "scalar_to_float 65535 = Finite 65535"
    "scalar_to_float 1 = Finite 1"
    by (simp_all add: scalar_to_float_def round_binary32_small)
  note w = get_range_consistent_when_source_is [where cr = ?cr and dev = register_file
      and opt = ?opt and T = U16 and d = "[(0, 3) \<mapsto> [0, 0]]" and get_pu_range = ?pu
      and popt = "\<lparr>pu_id = 7 :: nat\<rparr>" and pd = "()"
      and s = "make_fw_logger_option 0x0F 100 ''fw log''" and field = "0 :: nat"
      and rng = "\<lparr>range_min = Finite 0, range_max = Finite 1, step = Finite 1, def = Finite 0\<rparr>"]
  note c = w [THEN conjunct2, THEN conjunct2, THEN conjunct2, THEN conjunct2]
  note fr0 = c [THEN conjunct1]
  note r1 = c [THEN conjunct2, THEN conjunct1, THEN mp, OF h(1)]
  note r2 = c [THEN conjunct2, THEN conjunct2, THEN conjunct1, THEN mp, OF h(2)]
  note r3 = c [THEN conjunct2, THEN conjunct2, THEN conjunct2, THEN mp, OF conjI [OF h(3) h(4)]]
  have fr: "float_range ?cr =
      \<lparr>range_min = Finite 0, range_max = Finite 65535, step = Finite 1, def = Finite 0\<rparr>"
    by (simp add: fr0 f)
  show ?thesis
    using h fr r1 r2 r3 by (intro conjI)
qed

theorem struct_feild_range_not_consistent:
  "\<not> range_consistent (struct_feild_get_range (make_field_option (0 :: nat)
      \<lparr>range_min = Finite 0, range_max = Finite 1, step = Finite 1, def = Finite 5\<rparr>))"
  by (simp add: range_consistent_def struct_feild_get_range_def make_field_option_def)

end
